theory Spec2Isabelle
  imports Complex_Main "HOL-Library.Word" "HOL-Library.Multiset"
begin

unbundle bit_operations_syntax

section \<open>The network speed exporter (main.go)\<close>

text \<open>
  The program samples the kernel's per-interface counters once a second
  (\<open>collectNetworkSpeeds\<close>), keeps the previous sample of every interface in the
  process-wide table \<open>prevStats.stats\<close>, publishes gauges computed from two samples, and
  bounds the table with \<open>cleanupOldInterfaces\<close>. The metrics endpoint is guarded by
  \<open>isIPAllowed\<close>.

  Conventions of the embedding:
  \<^item> a Go \<open>string\<close> is a \<open>string\<close>, a list of bytes; the library functions that read
    a string as UTF-8 decode it as the library does;
  \<^item> \<open>uint64\<close> is \<open>64 word\<close>, so that subtraction wraps as in Go;
  \<^item> a \<open>float64\<close> is the real number it stands for, and every conversion and operation
    that yields a \<open>float64\<close> rounds its exact result with \<open>float64\<close> below;
  \<^item> a \<open>time.Time\<close> is an integer count of nanoseconds on the clock \<open>time.Now\<close>
    reads, and a \<open>time.Duration\<close> is an integer count of nanoseconds;
  \<^item> the map \<open>prevStats.stats\<close> and every \<open>GaugeVec\<close> are partial functions;
  \<^item> a panic is a value: what can panic returns \<open>Inl\<close> the panic, and a panic in the
    sampling goroutine ends the process;
  \<^item> what a cycle reads from the outside (the counter file, the interface flags, the alias
    files, the clock, the order in which \<open>range\<close> walks a map) is a parameter.
  The mutex of \<open>prevStats\<close> is not modelled: the sampling loop is the only writer and
  the embedding is sequential.
\<close>

subsection \<open>Library functions of Go used by the program\<close>

subsubsection \<open>UTF-8\<close>

text \<open>\<open>utf8.RuneError\<close>, the rune that stands for a byte that is not part of a valid
  encoding.\<close>

definition RuneError :: nat where
  "RuneError = 0xFFFD"

text \<open>The tables \<open>first\<close> and \<open>acceptRanges\<close> of package \<open>utf8\<close>, for a leading byte
  that starts an encoding of more than one byte: the size of the encoding and the lowest
  and highest second byte it accepts. \<open>None\<close> is the table's entry \<open>xx\<close>, a byte that
  starts no encoding (\<open>80\<close> to \<open>C1\<close>, \<open>F5\<close> to \<open>FF\<close>).\<close>

definition first :: "char \<Rightarrow> (nat \<times> nat \<times> nat) option" where
  "first c =
     (let b = of_char c :: nat
      in if 0xC2 \<le> b \<and> b \<le> 0xDF then Some (2, 0x80, 0xBF)
         else if b = 0xE0 then Some (3, 0xA0, 0xBF)
         else if 0xE1 \<le> b \<and> b \<le> 0xEC then Some (3, 0x80, 0xBF)
         else if b = 0xED then Some (3, 0x80, 0x9F)
         else if 0xEE \<le> b \<and> b \<le> 0xEF then Some (3, 0x80, 0xBF)
         else if b = 0xF0 then Some (4, 0x90, 0xBF)
         else if 0xF1 \<le> b \<and> b \<le> 0xF3 then Some (4, 0x80, 0xBF)
         else if b = 0xF4 then Some (4, 0x80, 0x8F)
         else None)"

text \<open>A continuation byte: between \<open>locb\<close> and \<open>hicb\<close>.\<close>

definition cont :: "char \<Rightarrow> bool" where
  "cont c = (0x80 \<le> (of_char c :: nat) \<and> (of_char c :: nat) \<le> 0xBF)"

text \<open>\<open>utf8.DecodeRuneInString\<close>: the first rune of the string and the number of bytes
  it takes; \<open>(RuneError, 1)\<close> when the string does not start with a valid encoding,
  \<open>(RuneError, 0)\<close> when it is empty. A \<open>range\<close> loop over a string reads its runes
  the same way.\<close>

definition DecodeRuneInString :: "string \<Rightarrow> nat \<times> nat" where
  "DecodeRuneInString str =
     (case str of
        [] \<Rightarrow> (RuneError, 0)
      | s0 # s \<Rightarrow>
          if (of_char s0 :: nat) < 0x80 then (of_char s0, 1)
          else
            (case first s0 of
               None \<Rightarrow> (RuneError, 1)
             | Some (sz, lo, hi) \<Rightarrow>
                 if length str < sz then (RuneError, 1)
                 else if of_char (s ! 0) < lo \<or> hi < of_char (s ! 0) then (RuneError, 1)
                 else if sz \<le> 2 then (of_char s0 mod 32 * 64 + of_char (s ! 0) mod 64, 2)
                 else if \<not> cont (s ! 1) then (RuneError, 1)
                 else if sz \<le> 3 then
                   (of_char s0 mod 16 * 4096 + of_char (s ! 0) mod 64 * 64
                      + of_char (s ! 1) mod 64, 3)
                 else if \<not> cont (s ! 2) then (RuneError, 1)
                 else
                   (of_char s0 mod 8 * 262144 + of_char (s ! 0) mod 64 * 4096
                      + of_char (s ! 1) mod 64 * 64 + of_char (s ! 2) mod 64, 4)))"

text \<open>\<open>utf8.RuneStart\<close>, and the loop of \<open>utf8.DecodeLastRuneInString\<close> that walks back
  from \<open>start\<close> to the first byte that may start a rune, not further than \<open>limit\<close>.\<close>

definition RuneStart :: "char \<Rightarrow> bool" where
  "RuneStart b = (\<not> cont b)"

function scanBack :: "string \<Rightarrow> int \<Rightarrow> int \<Rightarrow> int" where
  "scanBack s limit start =
     (if limit \<le> start \<and> \<not> RuneStart (s ! nat start) then scanBack s limit (start - 1)
      else start)"
  by pat_completeness auto
termination
  by (relation "measure (\<lambda>(s, limit, start). nat (start - limit + 1))") auto

declare scanBack.simps [simp del]

text \<open>\<open>utf8.DecodeLastRuneInString\<close>: the last rune of the string and the number of
  bytes it takes.\<close>

definition DecodeLastRuneInString :: "string \<Rightarrow> nat \<times> nat" where
  "DecodeLastRuneInString s =
     (let end = int (length s)
      in if end = 0 then (RuneError, 0)
         else if (of_char (s ! nat (end - 1)) :: nat) < 0x80
           then (of_char (s ! nat (end - 1)), 1)
         else
           (let limit = max 0 (end - 4);
                start = max 0 (scanBack s limit (end - 2));
                rs = DecodeRuneInString (drop (nat start) s)
            in if start + int (snd rs) \<noteq> end then (RuneError, 1) else rs))"

text \<open>\<open>utf8.ValidString\<close>: the string is a sequence of valid encodings.\<close>

function ValidString :: "string \<Rightarrow> bool" where
  "ValidString [] = True"
| "ValidString (si # s) =
     (if (of_char si :: nat) < 0x80 then ValidString s
      else
        (case first si of
           None \<Rightarrow> False
         | Some (sz, lo, hi) \<Rightarrow>
             if length (si # s) < sz then False
             else if of_char (s ! 0) < lo \<or> hi < of_char (s ! 0) then False
             else if sz = 2 then ValidString (drop 1 s)
             else if \<not> cont (s ! 1) then False
             else if sz = 3 then ValidString (drop 2 s)
             else if \<not> cont (s ! 2) then False
             else ValidString (drop 3 s)))"
  by pat_completeness auto
termination
  by (relation "measure length") auto

text \<open>\<open>unicode.IsSpace\<close>: the white space of Latin-1 (tab, line feed, vertical tab, form
  feed, carriage return, space, \<open>U+0085\<close>, \<open>U+00A0\<close>) and the other runes of the
  property \<open>White_Space\<close>.\<close>

definition IsSpace :: "nat \<Rightarrow> bool" where
  "IsSpace r =
     (r \<in> set [0x09, 0x0A, 0x0B, 0x0C, 0x0D, 0x20, 0x85, 0xA0, 0x1680, 0x2028, 0x2029,
                0x202F, 0x205F, 0x3000]
      \<or> (0x2000 \<le> r \<and> r \<le> 0x200A))"

subsubsection \<open>Strings\<close>

text \<open>\<open>strings.Fields\<close>: the maximal runs of runes that are not white space. The string
  is read rune by rune; the first argument is the field being read.\<close>

function FieldsFrom :: "string \<Rightarrow> string \<Rightarrow> string list" where
  "FieldsFrom w [] = (if w = [] then [] else [w])"
| "FieldsFrom w (c # cs) =
     (let rs = DecodeRuneInString (c # cs)
      in if IsSpace (fst rs)
         then (if w = [] then FieldsFrom [] (drop (snd rs) (c # cs))
               else w # FieldsFrom [] (drop (snd rs) (c # cs)))
         else FieldsFrom (w @ take (snd rs) (c # cs)) (drop (snd rs) (c # cs)))"
  by pat_completeness auto
termination
proof (relation "measure (\<lambda>(w, s). length s)")
  have size: "0 < snd (DecodeRuneInString (c # cs))" for c cs
    by (auto simp: DecodeRuneInString_def split: option.splits)
  have rest: "Suc (length cs) - snd (DecodeRuneInString (c # cs)) < Suc (length cs)" for c cs
    using size [of c cs] by simp
  show "wf (measure (\<lambda>(w, s). length s))" by simp
  show "\<And>w c cs x. x = DecodeRuneInString (c # cs) \<Longrightarrow> IsSpace (fst x) \<Longrightarrow> w = [] \<Longrightarrow>
      (([], drop (snd x) (c # cs)), w, c # cs) \<in> measure (\<lambda>(w, s). length s)"
    by (simp add: rest)
  show "\<And>w c cs x. x = DecodeRuneInString (c # cs) \<Longrightarrow> IsSpace (fst x) \<Longrightarrow> w \<noteq> [] \<Longrightarrow>
      (([], drop (snd x) (c # cs)), w, c # cs) \<in> measure (\<lambda>(w, s). length s)"
    by (simp add: rest)
  show "\<And>w c cs x. x = DecodeRuneInString (c # cs) \<Longrightarrow> \<not> IsSpace (fst x) \<Longrightarrow>
      ((w @ take (snd x) (c # cs), drop (snd x) (c # cs)), w, c # cs)
        \<in> measure (\<lambda>(w, s). length s)"
    by (simp add: rest)
qed

definition Fields :: "string \<Rightarrow> string list" where
  "Fields s = FieldsFrom [] s"

text \<open>\<open>strings.TrimSuffix\<close>.\<close>

definition TrimSuffix :: "string \<Rightarrow> string \<Rightarrow> string" where
  "TrimSuffix s suffix =
     (if length suffix \<le> length s \<and> drop (length s - length suffix) s = suffix
      then take (length s - length suffix) s else s)"

text \<open>\<open>strings.TrimSpace\<close> is \<open>TrimRightFunc(TrimLeftFunc(s, unicode.IsSpace),
  unicode.IsSpace)\<close>. \<open>TrimLeftFunc\<close> drops the runes before the first one that is not
  white space.\<close>

function TrimLeftSpace :: "string \<Rightarrow> string" where
  "TrimLeftSpace [] = []"
| "TrimLeftSpace (c # cs) =
     (let rs = DecodeRuneInString (c # cs)
      in if IsSpace (fst rs) then TrimLeftSpace (drop (snd rs) (c # cs)) else c # cs)"
  by pat_completeness auto
termination
proof (relation "measure length")
  have size: "0 < snd (DecodeRuneInString (c # cs))" for c cs
    by (auto simp: DecodeRuneInString_def split: option.splits)
  show "wf (measure length)" by simp
  show "\<And>c cs x. x = DecodeRuneInString (c # cs) \<Longrightarrow> IsSpace (fst x) \<Longrightarrow>
      (drop (snd x) (c # cs), c # cs) \<in> measure length"
    using size by simp
qed

text \<open>\<open>lastIndexFunc(s, unicode.IsSpace, false)\<close>: the index at which the last rune that
  is not white space starts, read from the end with \<open>DecodeLastRuneInString\<close>; \<open>-1\<close>
  when there is none.\<close>

function lastIndexNonSpace :: "string \<Rightarrow> int" where
  "lastIndexNonSpace s =
     (if s = [] then - 1
      else (let rs = DecodeLastRuneInString s;
                i = length s - snd rs
            in if \<not> IsSpace (fst rs) then int i else lastIndexNonSpace (take i s)))"
  by pat_completeness auto
termination
proof (relation "measure length")
  show "wf (measure length)" by simp
next
  fix s :: string and rs i
  assume s: "s \<noteq> []" and rs: "rs = DecodeLastRuneInString s" and i: "i = length s - snd rs"
  have walked: "scanBack t limit start \<le> start" for t limit start
  proof (induction t limit start rule: scanBack.induct)
    case (1 t limit start)
    then show ?case by (subst scanBack.simps) auto
  qed
  let ?start = "max 0 (scanBack s (max 0 (int (length s) - 4)) (int (length s) - 2))"
  have "?start < int (length s)"
    using walked [of s "max 0 (int (length s) - 4)" "int (length s) - 2"] s by auto
  moreover have "0 \<le> ?start" by simp
  ultimately have "nat ?start < length s" by linarith
  then have "drop (nat ?start) s \<noteq> []" by simp
  then obtain c cs where "drop (nat ?start) s = c # cs"
    by (cases "drop (nat ?start) s") auto
  moreover have "0 < snd (DecodeRuneInString (c # cs))"
    by (auto simp: DecodeRuneInString_def split: option.splits)
  ultimately have "0 < snd (DecodeRuneInString (drop (nat ?start) s))" by simp
  then have "0 < snd (DecodeLastRuneInString s)"
    using s by (auto simp: DecodeLastRuneInString_def Let_def)
  then show "(take i s, s) \<in> measure length"
    using s rs i by (cases s) auto
qed

declare lastIndexNonSpace.simps [simp del]

text \<open>\<open>TrimRightFunc\<close> keeps the string up to the end of that rune.\<close>

definition TrimRightSpace :: "string \<Rightarrow> string" where
  "TrimRightSpace s =
     (let i = lastIndexNonSpace s
      in if 0 \<le> i \<and> 0x80 \<le> (of_char (s ! nat i) :: nat)
         then take (nat i + snd (DecodeRuneInString (drop (nat i) s))) s
         else take (nat (i + 1)) s)"

definition TrimSpace :: "string \<Rightarrow> string" where
  "TrimSpace s = TrimRightSpace (TrimLeftSpace s)"

text \<open>\<open>strings.Split\<close> with a separator of one byte: the pieces between the separators,
  one piece (the empty string) for the empty string.\<close>

fun Split :: "string \<Rightarrow> char \<Rightarrow> string list" where
  "Split [] sep = [[]]"
| "Split (c # cs) sep =
     (if c = sep then [] # Split cs sep
      else (case Split cs sep of [] \<Rightarrow> [[c]] | w # ws \<Rightarrow> (c # w) # ws))"

text \<open>\<open>strings.IndexByte\<close> and \<open>strings.LastIndexByte\<close>; Go's \<open>-1\<close> is \<open>None\<close>.\<close>

fun IndexByte :: "string \<Rightarrow> char \<Rightarrow> nat option" where
  "IndexByte [] c = None"
| "IndexByte (x # xs) c = (if x = c then Some 0 else map_option Suc (IndexByte xs c))"

definition LastIndexByte :: "string \<Rightarrow> char \<Rightarrow> nat option" where
  "LastIndexByte s c = map_option (\<lambda>j. length s - 1 - j) (IndexByte (rev s) c)"

text \<open>\<open>net.SplitHostPort\<close>: \<open>host:port\<close>, \<open>[host]:port\<close>. The error of the library is
  an \<open>AddrError\<close> with one of five messages: missing port in address, too many colons
  in address, missing \<open>]\<close> in address, unexpected \<open>[\<close> in address, unexpected \<open>]\<close> in
  address.\<close>

datatype AddrError =
  missingPort | tooManyColons | missingBracket | unexpectedOpen | unexpectedClose

text \<open>The two checks at the end: no \<open>[\<close> from position \<open>j\<close> on, no \<open>]\<close> from position
  \<open>k\<close> on; then the port is what follows the last colon, at position \<open>i\<close>.\<close>

definition checkBrackets ::
  "string \<Rightarrow> nat \<Rightarrow> nat \<Rightarrow> nat \<Rightarrow> string \<Rightarrow> AddrError + string \<times> string" where
  "checkBrackets hostport i j k host =
     (if IndexByte (drop j hostport) (CHR ''['') \<noteq> None then Inl unexpectedOpen
      else if IndexByte (drop k hostport) (CHR '']'') \<noteq> None then Inl unexpectedClose
      else Inr (host, drop (i + 1) hostport))"

definition SplitHostPort :: "string \<Rightarrow> AddrError + string \<times> string" where
  "SplitHostPort hostport =
     (case LastIndexByte hostport (CHR '':'') of
        None \<Rightarrow> Inl missingPort
      | Some i \<Rightarrow>
          if hostport ! 0 = CHR ''['' then
            (case IndexByte hostport (CHR '']'') of
               None \<Rightarrow> Inl missingBracket
             | Some e \<Rightarrow>
                 if e + 1 = length hostport then Inl missingPort
                 else if e + 1 = i then
                   checkBrackets hostport i 1 (e + 1) (drop 1 (take e hostport))
                 else if hostport ! (e + 1) = CHR '':'' then Inl tooManyColons
                 else Inl missingPort)
          else
            (let host = take i hostport in
             if IndexByte host (CHR '':'') \<noteq> None then Inl tooManyColons
             else checkBrackets hostport i 0 0 host))"

text \<open>\<open>fmt.Sscanf(field, "%d", &v)\<close> with \<open>v\<close> a \<open>uint64\<close>: the longest prefix of decimal
  digits is the token; no digit at all, or a value that does not fit 64 bits, is an error
  and nothing is assigned.\<close>

definition isDigit :: "char \<Rightarrow> bool" where
  "isDigit c = (c \<in> set ''0123456789'')"

definition digitVal :: "char \<Rightarrow> nat" where
  "digitVal c = of_char c - 48"

definition ParseUint :: "string \<Rightarrow> 64 word option" where
  "ParseUint tok =
     (let n = foldl (\<lambda>a c. 10 * a + digitVal c) 0 tok
      in if tok = [] \<or> 2 ^ 64 \<le> n then None else Some (word_of_nat n))"

definition scanUint :: "string \<Rightarrow> 64 word option" where
  "scanUint s = ParseUint (takeWhile isDigit s)"

text \<open>The program discards the error of \<open>Sscanf\<close>; the variable was declared without a
  value, so it keeps Go's zero value when nothing is assigned.\<close>

definition Sscanf_d :: "string \<Rightarrow> 64 word" where
  "Sscanf_d s = (case scanUint s of None \<Rightarrow> 0 | Some v \<Rightarrow> v)"

subsection \<open>float64\<close>

text \<open>Rounding to the nearest integer, a tie to the even one.\<close>

definition rne :: "real \<Rightarrow> int" where
  "rne x =
     (let f = \<lfloor>x\<rfloor>; d = x - of_int f
      in if d < 1 / 2 then f else if 1 / 2 < d then f + 1 else if even f then f else f + 1)"

text \<open>The \<open>float64\<close> nearest to a real number, a tie to the one with the even
  significand: with \<open>2^E \<le> |x| < 2^(E+1)\<close>, the nearest multiple of \<open>2^(E-52)\<close> (a
  significand of 53 bits). It is the value of a conversion to \<open>float64\<close>, and of an
  operation on \<open>float64\<close> applied to the exact result. The exponent is not bounded:
  what the program rounds is 0 or lies between \<open>1e-10\<close> and \<open>1e30\<close> in absolute
  value (a count below \<open>2^64\<close>, a number of seconds between \<open>1e-9\<close> and \<open>2^63 / 1e9\<close>,
  their products by 8 and their quotients), far from the subnormal numbers and from
  overflow.\<close>

definition float64 :: "real \<Rightarrow> real" where
  "float64 x =
     (if x = 0 then 0
      else (let e = \<lfloor>log 2 \<bar>x\<bar>\<rfloor> - 52
            in of_int (rne (x / 2 powr of_int e)) * 2 powr of_int e))"

text \<open>The unit roundoff: rounding changes a number by at most this fraction of it.\<close>

definition eps64 :: real where
  "eps64 = 1 / 2 ^ 53"

subsection \<open>Time\<close>

type_synonym Time = int
type_synonym Duration = int

definition Second :: Duration where
  "Second = 1000000000"

definition Minute :: Duration where
  "Minute = 60 * Second"

definition maxDuration :: Duration where
  "maxDuration = 2 ^ 63 - 1"

definition minDuration :: Duration where
  "minDuration = - (2 ^ 63)"

text \<open>\<open>t.Sub(u)\<close>: the difference, held at the largest or smallest \<open>Duration\<close> when it
  does not fit 64 bits.\<close>

definition Sub :: "Time \<Rightarrow> Time \<Rightarrow> Duration" where
  "Sub t u =
     (let d = t - u
      in if maxDuration < d then maxDuration else if d < minDuration then minDuration else d)"

definition Before :: "Time \<Rightarrow> Time \<Rightarrow> bool" where
  "Before t u = (t < u)"

text \<open>Go's integer division and remainder truncate towards zero.\<close>

definition quo :: "int \<Rightarrow> int \<Rightarrow> int" where
  "quo a b = sgn a * sgn b * (\<bar>a\<bar> div \<bar>b\<bar>)"

definition rem :: "int \<Rightarrow> int \<Rightarrow> int" where
  "rem a b = a - b * quo a b"

text \<open>\<open>d.Seconds()\<close> is \<open>float64(sec) + float64(nsec)/1e9\<close> with \<open>sec := d / Second\<close>
  and \<open>nsec := d % Second\<close>: two conversions, a division and an addition, each
  rounded.\<close>

definition Seconds :: "Duration \<Rightarrow> real" where
  "Seconds d =
     (let sec = quo d Second; nsec = rem d Second
      in float64 (float64 (real_of_int sec) + float64 (float64 (real_of_int nsec) / 1000000000)))"

subsection \<open>Constants and data\<close>

definition bytesToBits :: real where
  "bytesToBits = 8"

definition maxInterfaces :: nat where
  "maxInterfaces = 1000"

definition cleanupInterval :: Duration where
  "cleanupInterval = 5 * Minute"

text \<open>The flags of \<open>net.Interface\<close> (a \<open>uint\<close>): \<open>FlagUp = 1 << 0\<close>,
  \<open>FlagLoopback = 1 << 2\<close>.\<close>

type_synonym Flags = "64 word"

definition FlagUp :: Flags where
  "FlagUp = 1"

definition FlagLoopback :: Flags where
  "FlagLoopback = 4"

text \<open>The value type of \<open>prevStats.stats\<close>.\<close>

record ifaceStats =
  rxBytes :: "64 word"
  txBytes :: "64 word"
  rxPackets :: "64 word"
  txPackets :: "64 word"
  rxErrors :: "64 word"
  txErrors :: "64 word"
  rxDrops :: "64 word"
  txDrops :: "64 word"
  time :: Time
  lastSeen :: Time

type_synonym statsMap = "string \<rightharpoonup> ifaceStats"

text \<open>A \<open>GaugeVec\<close> with two labels: the value last \<open>Set\<close> for each pair of label
  values.\<close>

type_synonym GaugeVec = "string \<times> string \<rightharpoonup> real"

text \<open>\<open>vec.With(labels)\<close> panics with the error of \<open>GetMetricWith\<close>, and the one error
  that two labels of the right names can meet is a label value that is not valid UTF-8.\<close>

datatype panic = LabelValueNotUTF8

text \<open>\<open>vec.With(prometheus.Labels{...}).Set(v)\<close>, with the two label values in the order
  in which the vector declares its labels.\<close>

definition With_Set :: "GaugeVec \<Rightarrow> string \<Rightarrow> string \<Rightarrow> real \<Rightarrow> panic + GaugeVec" where
  "With_Set vec l1 l2 v =
     (if ValidString l1 \<and> ValidString l2 then Inr (vec((l1, l2) \<mapsto> v))
      else Inl LabelValueNotUTF8)"

text \<open>The package-level variables the sampling loop writes.\<close>

record state =
  stats :: statsMap
  networkSpeedBits :: GaugeVec
  networkErrors :: GaugeVec
  networkDrops :: GaugeVec
  networkPackets :: GaugeVec
  networkInterfaceInfo :: GaugeVec

text \<open>What one iteration of the loop observes: the result of opening and scanning
  \<open>/proc/net/dev\<close> (\<open>Inl\<close> the error of \<open>os.Open\<close>, \<open>Inr\<close> the lines the scanner
  returns, the two header lines first), the result of
  \<open>net.InterfaceByName\<close> (\<open>None\<close> when it fails, else the flags), the result of
  \<open>os.ReadFile\<close> (\<open>None\<close> when it fails), the clock read while the \<open>i\<close>-th line after
  the header is handled, the clock read by the clean-up, and the order in which \<open>range\<close>
  yields the keys of the table in the clean-up.\<close>

record env =
  procNetDev :: "string + string list"
  InterfaceByName :: "string \<Rightarrow> Flags option"
  ReadFile :: "string \<Rightarrow> string option"
  Now :: "nat \<Rightarrow> Time"
  cleanupNow :: Time
  rangeOrder :: "string list"

subsection \<open>cleanupOldInterfaces\<close>

text \<open>Reading a map at a key yields Go's zero value when the key is absent.\<close>

definition zeroStats :: ifaceStats where
  "zeroStats = \<lparr>rxBytes = 0, txBytes = 0, rxPackets = 0, txPackets = 0, rxErrors = 0,
     txErrors = 0, rxDrops = 0, txDrops = 0, time = 0, lastSeen = 0\<rparr>"

definition index :: "statsMap \<Rightarrow> string \<Rightarrow> ifaceStats" where
  "index m k = (case m k of None \<Rightarrow> zeroStats | Some s \<Rightarrow> s)"

text \<open>\<open>sort.Slice\<close> with the comparison \<open>lessFn\<close>, as an insertion sort: it keeps the
  order of the slice between elements neither of which is less than the other. The
  library's sort is not stable; its contract is a sorted permutation of the slice. Every
  sorted permutation of the keys is what this sort returns on some walk of the table (on
  that permutation, lemma \<open>sort_Slice_of_sorted\<close>), so the walks cover all that the
  library may return; and when no two keys compare equal there is one sorted permutation
  only (lemma \<open>sorted_permutation_unique\<close>).\<close>

fun insertLess :: "('a \<Rightarrow> 'a \<Rightarrow> bool) \<Rightarrow> 'a \<Rightarrow> 'a list \<Rightarrow> 'a list" where
  "insertLess lessFn x [] = [x]"
| "insertLess lessFn x (y # ys) =
     (if lessFn y x then y # insertLess lessFn x ys else x # y # ys)"

definition sort_Slice :: "('a \<Rightarrow> 'a \<Rightarrow> bool) \<Rightarrow> 'a list \<Rightarrow> 'a list" where
  "sort_Slice lessFn xs = foldr (insertLess lessFn) xs []"

text \<open>The first loop: every entry not seen for more than \<open>cleanupInterval\<close> is deleted.
  The loop looks at each entry once and deletes no other entry than the one it looks at,
  so its result does not depend on the order of the walk.\<close>

definition evictStale :: "Time \<Rightarrow> statsMap \<Rightarrow> statsMap" where
  "evictStale now m =
     (\<lambda>iface. case m iface of
                None \<Rightarrow> None
              | Some s \<Rightarrow> if cleanupInterval < Sub now (lastSeen s) then None else Some s)"

text \<open>The second part: \<open>order\<close> is the slice \<open>interfaces\<close> as the \<open>range\<close> loop filled
  it, one key of the table after the other in the order of the walk.\<close>

definition enforceCapacity :: "string list \<Rightarrow> statsMap \<Rightarrow> statsMap" where
  "enforceCapacity order m =
     (if maxInterfaces < card (dom m) then
        let interfaces = sort_Slice (\<lambda>a b. Before (lastSeen (index m a)) (lastSeen (index m b))) order
        in fold (\<lambda>i m'. m'(interfaces ! i := None)) [0 ..< length interfaces - maxInterfaces] m
      else m)"

definition cleanupOldInterfaces :: "Time \<Rightarrow> string list \<Rightarrow> statsMap \<Rightarrow> statsMap" where
  "cleanupOldInterfaces now order m = enforceCapacity order (evictStale now m)"

text \<open>\<open>order\<close> is a walk of the table \<open>m\<close>: every key once.\<close>

definition rangeOf :: "statsMap \<Rightarrow> string list \<Rightarrow> bool" where
  "rangeOf m order = (distinct order \<and> set order = dom m)"

subsection \<open>collectNetworkSpeeds\<close>

text \<open>The eight counters of a line and the time of the reading: the value stored in the
  table at the end of the loop body.\<close>

definition readCounters :: "string list \<Rightarrow> Time \<Rightarrow> ifaceStats" where
  "readCounters flds now =
     \<lparr>rxBytes = Sscanf_d (flds ! 1), txBytes = Sscanf_d (flds ! 9),
      rxPackets = Sscanf_d (flds ! 2), txPackets = Sscanf_d (flds ! 10),
      rxErrors = Sscanf_d (flds ! 3), txErrors = Sscanf_d (flds ! 11),
      rxDrops = Sscanf_d (flds ! 4), txDrops = Sscanf_d (flds ! 12),
      time = now, lastSeen = now\<rparr>"

definition lookupDescription :: "env \<Rightarrow> string \<Rightarrow> string" where
  "lookupDescription e ifaceName =
     (case ReadFile e (''/sys/class/net/'' @ ifaceName @ ''/ifalias'') of
        None \<Rightarrow> ''Unknown''
      | Some descBytes \<Rightarrow> TrimSpace descBytes)"

text \<open>Statements that may panic, one after the other: the first panic ends the
  sequence.\<close>

fun inOrder :: "('s \<Rightarrow> panic + 's) list \<Rightarrow> 's \<Rightarrow> panic + 's" where
  "inOrder [] st = Inr st"
| "inOrder (stmt # stmts) st =
     (case stmt st of Inl p \<Rightarrow> Inl p | Inr st' \<Rightarrow> inOrder stmts st')"

text \<open>The body of \<open>if timeDiff > 0\<close>: the two rates and the six absolute counters. A rate
  is \<open>float64(rxBytes-prev.rxBytes) * bytesToBits / timeDiff\<close>: the difference of the two
  \<open>uint64\<close>, converted, multiplied and divided.\<close>

definition publish :: "string \<Rightarrow> ifaceStats \<Rightarrow> ifaceStats \<Rightarrow> real \<Rightarrow> state \<Rightarrow> panic + state" where
  "publish ifaceName cur prev timeDiff st =
     (let rxSpeed =
            float64 (float64 (float64 (real (unat (rxBytes cur - rxBytes prev))) * bytesToBits)
                       / timeDiff);
          txSpeed =
            float64 (float64 (float64 (real (unat (txBytes cur - txBytes prev))) * bytesToBits)
                       / timeDiff)
      in inOrder
           [\<lambda>st. map_sum id (\<lambda>vec. st\<lparr>networkSpeedBits := vec\<rparr>)
                    (With_Set (networkSpeedBits st) ifaceName ''receive'' rxSpeed),
            \<lambda>st. map_sum id (\<lambda>vec. st\<lparr>networkSpeedBits := vec\<rparr>)
                    (With_Set (networkSpeedBits st) ifaceName ''transmit'' txSpeed),
            \<lambda>st. map_sum id (\<lambda>vec. st\<lparr>networkErrors := vec\<rparr>)
                    (With_Set (networkErrors st) ifaceName ''receive''
                       (float64 (real (unat (rxErrors cur))))),
            \<lambda>st. map_sum id (\<lambda>vec. st\<lparr>networkErrors := vec\<rparr>)
                    (With_Set (networkErrors st) ifaceName ''transmit''
                       (float64 (real (unat (txErrors cur))))),
            \<lambda>st. map_sum id (\<lambda>vec. st\<lparr>networkDrops := vec\<rparr>)
                    (With_Set (networkDrops st) ifaceName ''receive''
                       (float64 (real (unat (rxDrops cur))))),
            \<lambda>st. map_sum id (\<lambda>vec. st\<lparr>networkDrops := vec\<rparr>)
                    (With_Set (networkDrops st) ifaceName ''transmit''
                       (float64 (real (unat (txDrops cur))))),
            \<lambda>st. map_sum id (\<lambda>vec. st\<lparr>networkPackets := vec\<rparr>)
                    (With_Set (networkPackets st) ifaceName ''receive''
                       (float64 (real (unat (rxPackets cur))))),
            \<lambda>st. map_sum id (\<lambda>vec. st\<lparr>networkPackets := vec\<rparr>)
                    (With_Set (networkPackets st) ifaceName ''transmit''
                       (float64 (real (unat (txPackets cur)))))]
           st)"

text \<open>The loop body from the description lookup to the update of the table, for an
  interface that was not skipped: the interface-info gauge is set, the counters are read,
  the gauges are published when a sample is stored and time has passed since, and the
  reading is stored.\<close>

definition sample :: "env \<Rightarrow> Time \<Rightarrow> string list \<Rightarrow> string \<Rightarrow> state \<Rightarrow> panic + state" where
  "sample e now flds ifaceName st =
     (let description = lookupDescription e ifaceName;
          cur = readCounters flds now
      in inOrder
           [\<lambda>st. map_sum id (\<lambda>vec. st\<lparr>networkInterfaceInfo := vec\<rparr>)
                    (With_Set (networkInterfaceInfo st) ifaceName description 1),
            \<lambda>st. (case stats st ifaceName of
                     None \<Rightarrow> Inr st
                   | Some prev \<Rightarrow>
                       (let timeDiff = Seconds (Sub now (time prev))
                        in if 0 < timeDiff then publish ifaceName cur prev timeDiff st
                           else Inr st)),
            \<lambda>st. Inr (st\<lparr>stats := (stats st)(ifaceName \<mapsto> cur)\<rparr>)]
           st)"

text \<open>\<open>err != nil || iface.Flags&net.FlagLoopback != 0 || iface.Flags&net.FlagUp == 0\<close>.\<close>

definition skipped :: "env \<Rightarrow> string \<Rightarrow> bool" where
  "skipped e ifaceName =
     (case InterfaceByName e ifaceName of
        None \<Rightarrow> True
      | Some flags \<Rightarrow> flags AND FlagLoopback \<noteq> 0 \<or> flags AND FlagUp = 0)"

text \<open>One line of the file. The first component is the local map \<open>currentInterfaces\<close>,
  which the program fills and never reads.\<close>

definition processLine ::
  "env \<Rightarrow> Time \<Rightarrow> string \<Rightarrow> (string \<rightharpoonup> bool) \<times> state \<Rightarrow> panic + (string \<rightharpoonup> bool) \<times> state" where
  "processLine e now line cs =
     (let flds = Fields line
      in if length flds < 17 then Inr cs
         else
           (let ifaceName = TrimSuffix (flds ! 0) '':'';
                currentInterfaces = (fst cs)(ifaceName \<mapsto> True)
            in if skipped e ifaceName then Inr (currentInterfaces, snd cs)
               else map_sum id (Pair currentInterfaces) (sample e now flds ifaceName (snd cs))))"

fun scanLines ::
  "env \<Rightarrow> nat \<Rightarrow> string list \<Rightarrow> (string \<rightharpoonup> bool) \<times> state \<Rightarrow> panic + (string \<rightharpoonup> bool) \<times> state" where
  "scanLines e i [] cs = Inr cs"
| "scanLines e i (line # lines) cs =
     (case processLine e (Now e i) line cs of
        Inl p \<Rightarrow> Inl p
      | Inr cs' \<Rightarrow> scanLines e (Suc i) lines cs')"

text \<open>What an iteration does besides writing the state: a line of log, a sleep.\<close>

datatype event = Log string | Sleep Duration

text \<open>One iteration of the \<open>for\<close> loop. When the file cannot be opened the iteration logs,
  sleeps and goes on with the next iteration (\<open>continue\<close>); otherwise the two header lines
  are skipped, every other line is handled, the table is cleaned up and the loop sleeps.\<close>

definition iteration :: "env \<Rightarrow> state \<Rightarrow> panic + state \<times> event list" where
  "iteration e st =
     (case procNetDev e of
        Inl err \<Rightarrow> Inr (st, [Log (''Error opening /proc/net/dev: '' @ err), Sleep Second])
      | Inr lines \<Rightarrow>
          (case scanLines e 0 (drop 2 lines) (Map.empty, st) of
             Inl p \<Rightarrow> Inl p
           | Inr cs \<Rightarrow>
               Inr ((snd cs)\<lparr>stats :=
                       cleanupOldInterfaces (cleanupNow e) (rangeOrder e) (stats (snd cs))\<rparr>,
                    [Sleep Second])))"

text \<open>The loop never ends unless it panics; its first \<open>length es\<close> iterations, one
  observation each. The result is the panic that ended the process or the state after
  the last iteration, and what the iterations logged and slept.\<close>

fun collectNetworkSpeeds :: "env list \<Rightarrow> state \<Rightarrow> (panic + state) \<times> event list" where
  "collectNetworkSpeeds [] st = (Inr st, [])"
| "collectNetworkSpeeds (e # es) st =
     (case iteration e st of
        Inl p \<Rightarrow> (Inl p, [])
      | Inr r \<Rightarrow>
          (let r' = collectNetworkSpeeds es (fst r)
           in (fst r', snd r @ snd r')))"

subsection \<open>isIPAllowed\<close>

fun matchAllowed :: "string \<Rightarrow> string list \<Rightarrow> bool" where
  "matchAllowed ip [] = False"
| "matchAllowed ip (allowedIP # allowedList) =
     (if ip = TrimSpace allowedIP then True else matchAllowed ip allowedList)"

text \<open>The address compared with the list: the host of \<open>net.SplitHostPort\<close>, the whole
  string when that fails.\<close>

definition sourceIP :: "string \<Rightarrow> string" where
  "sourceIP remoteAddr =
     (case SplitHostPort remoteAddr of Inl err \<Rightarrow> remoteAddr | Inr hp \<Rightarrow> fst hp)"

definition isIPAllowed :: "string \<Rightarrow> string \<Rightarrow> bool" where
  "isIPAllowed allowedIPs remoteAddr =
     (if allowedIPs = [] then True
      else matchAllowed (sourceIP remoteAddr) (Split allowedIPs (CHR '','')))"

subsection \<open>Concrete inputs\<close>

text \<open>Two readings of \<open>eth0\<close> one second apart, as two lines of \<open>/proc/net/dev\<close>, and a
  line whose first counter is not a number.\<close>

definition lineA :: string where
  "lineA = ''  eth0: 1000 10 0 0 0 0 0 0 500 5 0 0 0 0 0 0''"

definition lineB :: string where
  "lineB = ''  eth0: 2000 20 1 2 0 0 0 0 1500 15 3 4 0 0 0 0''"

definition lineBad :: string where
  "lineBad = ''  eth0: n/a 10 0 0 0 0 0 0 500 5 0 0 0 0 0 0''"

definition header1 :: string where
  "header1 = ''Inter-|   Receive                            |  Transmit''"

definition header2 :: string where
  "header2 = '' face |bytes packets errs drop fifo frame compressed multicast|bytes packets errs drop fifo colls carrier compressed''"

text \<open>A host where \<open>eth0\<close> is up (up, broadcast, multicast, running) with the alias
  \<open>uplink\<close>, \<open>lo\<close> is the loopback interface, and nothing else exists.\<close>

definition hostUp :: env where
  "hostUp =
     \<lparr>procNetDev = Inr [header1, header2, lineB],
      InterfaceByName = (\<lambda>n. if n = ''eth0'' then Some 51 else if n = ''lo'' then Some 37 else None),
      ReadFile = (\<lambda>p. if p = ''/sys/class/net/eth0/ifalias'' then Some (''uplink'' @ [CHR 0x0A]) else None),
      Now = (\<lambda>i. 1000000000),
      cleanupNow = 1000000001,
      rangeOrder = [''eth0'']\<rparr>"

text \<open>The same host with \<open>eth0\<close> administratively down (broadcast, multicast).\<close>

definition hostDown :: env where
  "hostDown = hostUp\<lparr>InterfaceByName := (\<lambda>n. if n = ''eth0'' then Some 18 else None)\<rparr>"

text \<open>The same host when \<open>/proc/net/dev\<close> cannot be opened.\<close>

definition hostUnreadable :: env where
  "hostUnreadable = hostUp\<lparr>procNetDev := Inl ''open /proc/net/dev: no such file or directory''\<rparr>"

text \<open>The same host when the alias of \<open>eth0\<close> was set to the one byte \<open>FF\<close>, which is
  not UTF-8; the file holds the alias and a line feed.\<close>

definition hostBadAlias :: env where
  "hostBadAlias =
     hostUp\<lparr>ReadFile := (\<lambda>p. if p = ''/sys/class/net/eth0/ifalias''
                               then Some [CHR 0xFF, CHR 0x0A] else None)\<rparr>"

definition noGauges :: GaugeVec where
  "noGauges = Map.empty"

text \<open>The state before the first iteration.\<close>

definition initialState :: state where
  "initialState =
     \<lparr>stats = Map.empty, networkSpeedBits = noGauges, networkErrors = noGauges,
      networkDrops = noGauges, networkPackets = noGauges, networkInterfaceInfo = noGauges\<rparr>"

text \<open>The counters of \<open>lineA\<close>, of \<open>lineB\<close> and of \<open>lineBad\<close>, read at time \<open>t\<close>.\<close>

definition readingA :: "Time \<Rightarrow> ifaceStats" where
  "readingA t =
     \<lparr>rxBytes = 1000, txBytes = 500, rxPackets = 10, txPackets = 5, rxErrors = 0,
      txErrors = 0, rxDrops = 0, txDrops = 0, time = t, lastSeen = t\<rparr>"

definition readingB :: "Time \<Rightarrow> ifaceStats" where
  "readingB t =
     \<lparr>rxBytes = 2000, txBytes = 1500, rxPackets = 20, txPackets = 15, rxErrors = 1,
      txErrors = 3, rxDrops = 2, txDrops = 4, time = t, lastSeen = t\<rparr>"

definition readingBad :: "Time \<Rightarrow> ifaceStats" where
  "readingBad t =
     \<lparr>rxBytes = 0, txBytes = 500, rxPackets = 10, txPackets = 5, rxErrors = 0,
      txErrors = 0, rxDrops = 0, txDrops = 0, time = t, lastSeen = t\<rparr>"

text \<open>The states in which the reading of \<open>lineA\<close>, of \<open>lineB\<close>, was stored at time 0.\<close>

definition afterA :: state where
  "afterA = initialState\<lparr>stats := [''eth0'' \<mapsto> readingA 0]\<rparr>"

definition afterB :: state where
  "afterB = initialState\<lparr>stats := [''eth0'' \<mapsto> readingB 0]\<rparr>"

text \<open>The state that follows \<open>afterB\<close> when \<open>lineA\<close> is read one second later on
  \<open>hostUp\<close>: both byte counters have fallen by 1000, and both rates are \<open>2^67\<close>.\<close>

definition afterWrap :: state where
  "afterWrap =
     \<lparr>stats = [''eth0'' \<mapsto> readingA 1000000000],
      networkSpeedBits = [(''eth0'', ''receive'') \<mapsto> 147573952589676412928,
                          (''eth0'', ''transmit'') \<mapsto> 147573952589676412928],
      networkErrors = [(''eth0'', ''receive'') \<mapsto> 0, (''eth0'', ''transmit'') \<mapsto> 0],
      networkDrops = [(''eth0'', ''receive'') \<mapsto> 0, (''eth0'', ''transmit'') \<mapsto> 0],
      networkPackets = [(''eth0'', ''receive'') \<mapsto> 10, (''eth0'', ''transmit'') \<mapsto> 5],
      networkInterfaceInfo = [(''eth0'', ''uplink'') \<mapsto> 1]\<rparr>"

subsection \<open>Notions used in the statements\<close>


text \<open>The keys that \<open>enforceCapacity\<close> deletes from a table over its capacity: the first
  \<open>len(interfaces) - maxInterfaces\<close> keys of the sorted slice.\<close>

definition oldest :: "string list \<Rightarrow> statsMap \<Rightarrow> string list" where
  "oldest order m =
     take (length order - maxInterfaces) (sort_key (\<lambda>k. lastSeen (index m k)) order)"

text \<open>A table over its capacity: the interfaces \<open>veth0000\<close>, \<open>veth0001\<close>, ..., the
  \<open>i\<close>-th last seen at time \<open>seen i\<close>; and two walks of it, by rising and by falling
  number.\<close>

definition digit :: "nat \<Rightarrow> char" where
  "digit d = ''0123456789'' ! d"

definition ifname :: "nat \<Rightarrow> string" where
  "ifname i = ''veth'' @ [digit (i div 1000 mod 10), digit (i div 100 mod 10),
                           digit (i div 10 mod 10), digit (i mod 10)]"

definition seenAt :: "Time \<Rightarrow> ifaceStats" where
  "seenAt t = zeroStats\<lparr>time := t, lastSeen := t\<rparr>"

definition crowd :: "(nat \<Rightarrow> Time) \<Rightarrow> nat \<Rightarrow> statsMap" where
  "crowd seen n = map_of (map (\<lambda>i. (ifname i, seenAt (seen i))) [0 ..< n])"

definition walkUp :: "nat \<Rightarrow> string list" where
  "walkUp n = map ifname [0 ..< n]"

definition walkDown :: "nat \<Rightarrow> string list" where
  "walkDown n = rev (walkUp n)"

text \<open>1001 interfaces all last seen at time 0, and 1001 interfaces last seen at the times
  0, 1, ..., 1000.\<close>

definition tiedTable :: statsMap where
  "tiedTable = crowd (\<lambda>i. 0) (Suc maxInterfaces)"

definition agedTable :: statsMap where
  "agedTable = crowd int (Suc maxInterfaces)"

section \<open>Properties\<close>

subsection \<open>Rounding\<close>

lemma rne_error: "\<bar>of_int (rne x) - x\<bar> \<le> 1 / 2"
proof -
  have "of_int \<lfloor>x\<rfloor> \<le> x" "x < of_int \<lfloor>x\<rfloor> + 1" by linarith+
  then show ?thesis by (auto simp: rne_def Let_def)
qed

lemma rne_of_int: "rne (of_int k) = k"
  by (simp add: rne_def)

lemma rne_Ints: "x \<in> \<int> \<Longrightarrow> of_int (rne x) = x"
  by (auto simp: Ints_def rne_of_int)

lemma binade:
  assumes "x \<noteq> 0"
  shows "2 powr of_int \<lfloor>log 2 \<bar>x\<bar>\<rfloor> \<le> \<bar>x\<bar>" and "\<bar>x\<bar> < 2 powr (of_int \<lfloor>log 2 \<bar>x\<bar>\<rfloor> + 1)"
proof -
  have pos: "0 < \<bar>x\<bar>" using assms by simp
  have "of_int \<lfloor>log 2 \<bar>x\<bar>\<rfloor> \<le> log 2 \<bar>x\<bar>" by simp
  then show "2 powr of_int \<lfloor>log 2 \<bar>x\<bar>\<rfloor> \<le> \<bar>x\<bar>"
    using pos by (simp add: powr_le_iff)
  have "log 2 \<bar>x\<bar> < of_int \<lfloor>log 2 \<bar>x\<bar>\<rfloor> + 1" by linarith
  then show "\<bar>x\<bar> < 2 powr (of_int \<lfloor>log 2 \<bar>x\<bar>\<rfloor> + 1)"
    using pos by (simp add: less_powr_iff)
qed

lemma float64_error: "\<bar>float64 x - x\<bar> \<le> \<bar>x\<bar> / 2 ^ 53"
proof (cases "x = 0")
  case True
  then show ?thesis by (simp add: float64_def)
next
  case False
  define E where "E = \<lfloor>log 2 \<bar>x\<bar>\<rfloor>"
  define u :: real where "u = 2 powr of_int (E - 52)"
  have u: "0 < u" by (simp add: u_def)
  have fl: "float64 x = of_int (rne (x / u)) * u"
    using False by (simp add: float64_def Let_def E_def u_def)
  have "float64 x - x = (of_int (rne (x / u)) - x / u) * u"
    using u by (simp add: fl left_diff_distrib)
  then have "\<bar>float64 x - x\<bar> = \<bar>of_int (rne (x / u)) - x / u\<bar> * u"
    using u by (simp add: abs_mult)
  also have "\<dots> \<le> 1 / 2 * u"
    using rne_error [of "x / u"] u by (intro mult_right_mono) simp_all
  also have "\<dots> = 2 powr of_int E / 2 ^ 53"
  proof -
    have "u = 2 powr of_int E / 2 powr 52"
      by (simp add: u_def powr_diff)
    moreover have "(2::real) powr 52 = 2 ^ 52"
      using powr_realpow [of 2 52] by simp
    ultimately show ?thesis by simp
  qed
  also have "\<dots> \<le> \<bar>x\<bar> / 2 ^ 53"
    using binade(1) [OF False] by (simp add: E_def divide_right_mono)
  finally show ?thesis .
qed

lemma float64_zero: "float64 0 = 0"
  by (simp add: float64_def)

lemma float64_lower:
  assumes "0 \<le> x"
  shows "x * (1 - 1 / 2 ^ 53) \<le> float64 x"
proof -
  have "\<bar>float64 x - x\<bar> \<le> x / 2 ^ 53" using float64_error [of x] assms by simp
  then have "x - x / 2 ^ 53 \<le> float64 x" by linarith
  moreover have "x * (1 - 1 / 2 ^ 53) = x - x / 2 ^ 53" by (simp add: algebra_simps)
  ultimately show ?thesis by (simp only:)
qed

lemma float64_upper:
  assumes "0 \<le> x"
  shows "float64 x \<le> x * (1 + 1 / 2 ^ 53)"
proof -
  have "\<bar>float64 x - x\<bar> \<le> x / 2 ^ 53" using float64_error [of x] assms by simp
  then have "float64 x \<le> x + x / 2 ^ 53" by linarith
  moreover have "x * (1 + 1 / 2 ^ 53) = x + x / 2 ^ 53" by (simp add: algebra_simps)
  ultimately show ?thesis by (simp only:)
qed

lemma float64_pos: "0 < x \<Longrightarrow> 0 < float64 x"
proof -
  assume "0 < x"
  then have "0 < x * (1 - 1 / 2 ^ 53)" by simp
  also have "\<dots> \<le> float64 x" using \<open>0 < x\<close> by (intro float64_lower) simp
  finally show ?thesis .
qed

lemma float64_nonneg: "0 \<le> x \<Longrightarrow> 0 \<le> float64 x"
  using float64_pos [of x] by (cases "x = 0") (simp_all add: float64_zero)

lemma float64_nonpos: "x \<le> 0 \<Longrightarrow> float64 x \<le> 0"
proof (cases "x = 0")
  case True
  then show ?thesis by (simp add: float64_zero)
next
  case False
  assume "x \<le> 0"
  with False have neg: "x < 0" by simp
  have "\<bar>float64 x - x\<bar> \<le> - x / 2 ^ 53" using float64_error [of x] neg by simp
  then have "float64 x \<le> x - x / 2 ^ 53" by linarith
  also have "\<dots> = x * (1 - 1 / 2 ^ 53)" by (simp add: algebra_simps)
  also have "\<dots> < 0" using neg by (simp add: mult_less_0_iff)
  finally show ?thesis by simp
qed

lemma float64_exact:
  assumes "x / 2 powr of_int (\<lfloor>log 2 \<bar>x\<bar>\<rfloor> - 52) \<in> \<int>"
  shows "float64 x = x"
  using assms by (cases "x = 0") (simp_all add: float64_def Let_def rne_Ints)

lemma float64_of_int:
  assumes "\<bar>k\<bar> < 2 ^ 53"
  shows "float64 (of_int k) = of_int k"
proof (cases "k = 0")
  case True
  then show ?thesis by (simp add: float64_zero)
next
  case False
  define E where "E = \<lfloor>log 2 \<bar>real_of_int k\<bar>\<rfloor>"
  have nz: "real_of_int k \<noteq> 0" using False by simp
  have "2 powr of_int E \<le> \<bar>real_of_int k\<bar>"
    using binade(1) [OF nz] by (simp add: E_def)
  also have "\<dots> < 2 ^ 53"
  proof -
    have "real_of_int \<bar>k\<bar> < real_of_int (2 ^ 53)" using assms by (simp only: of_int_less_iff)
    then show ?thesis by simp
  qed
  finally have "2 powr real_of_int E < 2 ^ 53" .
  moreover have "(2::real) ^ 53 = 2 powr real_of_int 53" using powr_realpow [of 2 53] by simp
  ultimately have "2 powr real_of_int E < 2 powr real_of_int 53" by (simp only:)
  then have "real_of_int E < real_of_int 53" by (rule powr_less_cancel) simp
  then have "E < 53" by (simp only: of_int_less_iff)
  then have "0 \<le> 52 - E" by simp
  then obtain n where n: "52 - E = int n" using nonneg_int_cases by blast
  have "real_of_int k / 2 powr of_int (E - 52) = real_of_int k * 2 powr of_int (52 - E)"
    by (simp add: powr_minus [symmetric] field_simps flip: powr_add)
  also have "\<dots> = real_of_int (k * 2 ^ n)"
    using powr_realpow [of 2 n] by (simp add: n)
  finally have "real_of_int k / 2 powr of_int (E - 52) \<in> \<int>" by simp
  then show ?thesis unfolding E_def by (rule float64_exact)
qed

lemma float64_numeral:
  "(numeral n :: int) < 2 ^ 53 \<Longrightarrow> float64 (numeral n) = numeral n"
  using float64_of_int [of "numeral n"] by simp

lemma float64_one: "float64 1 = 1"
  using float64_of_int [of 1] by simp

lemma float64_big:
  assumes "2 ^ n \<le> x" and "x < 2 ^ Suc n" and "52 \<le> n"
  shows "float64 x = of_int (rne (x / 2 ^ (n - 52))) * 2 ^ (n - 52)"
proof -
  have "0 < (2::real) ^ n" by simp
  with assms(1) have pos: "0 < x" by linarith
  have "\<lfloor>log 2 \<bar>x\<bar>\<rfloor> = int n"
  proof (rule floor_unique)
    have "(2::real) powr of_nat n \<le> x" using assms(1) powr_realpow [of 2 n] by simp
    then show "of_int (int n) \<le> log 2 \<bar>x\<bar>" using pos by (simp add: le_log_iff)
    have "x < (2::real) powr of_nat (Suc n)" using assms(2) powr_realpow [of 2 "Suc n"] by simp
    then have "log 2 x < of_nat (Suc n)" using pos by (simp add: log_less_iff)
    then show "log 2 \<bar>x\<bar> < of_int (int n) + 1" using pos by simp
  qed
  moreover have "2 powr of_int (int n - 52) = (2::real) ^ (n - 52)"
    using powr_realpow [of 2 "n - 52"] assms(3) by (simp add: of_nat_diff)
  ultimately show ?thesis using pos by (simp add: float64_def Let_def)
qed

lemma rne_unique: "of_int k - 1 / 2 < x \<Longrightarrow> x < of_int k + 1 / 2 \<Longrightarrow> rne x = k"
  by (auto simp: rne_def Let_def) linarith+

lemma float64_2_64_minus_1000: "float64 (2 ^ 64 - 1000) = 2 ^ 64"
proof -
  have "float64 (2 ^ 64 - 1000) = of_int (rne ((2 ^ 64 - 1000) / 2 ^ (63 - 52))) * 2 ^ (63 - 52)"
    by (rule float64_big) simp_all
  moreover have "rne ((2 ^ 64 - 1000) / 2 ^ (63 - 52)) = 2 ^ 53"
    by (rule rne_unique) simp_all
  ultimately show ?thesis by simp
qed

lemma float64_power2: "float64 (2 ^ n) = 2 ^ n"
proof -
  have "\<lfloor>log 2 \<bar>(2::real) ^ n\<bar>\<rfloor> = int n" by simp
  then have "(2::real) ^ n / 2 powr of_int (\<lfloor>log 2 \<bar>(2::real) ^ n\<bar>\<rfloor> - 52)
      = 2 powr of_int (int n) / 2 powr of_int (int n - 52)"
    using powr_realpow [of 2 n] by simp
  also have "\<dots> = 2 powr 52" by (simp flip: powr_diff)
  also have "\<dots> = 2 ^ 52" using powr_realpow [of 2 52] by simp
  finally have "(2::real) ^ n / 2 powr of_int (\<lfloor>log 2 \<bar>(2::real) ^ n\<bar>\<rfloor> - 52) \<in> \<int>"
    by simp
  then show ?thesis by (rule float64_exact)
qed

lemmas float64_simps = float64_zero float64_one float64_numeral

lemma eps64_bounds: "0 < eps64" "eps64 < 1" "0 < 1 - eps64" "1 - eps64 \<le> 1" "1 \<le> 1 + eps64"
  by (simp_all add: eps64_def)

lemma float64_between:
  assumes "0 \<le> x"
  shows "x * (1 - eps64) \<le> float64 x" and "float64 x \<le> x * (1 + eps64)"
  using float64_lower [OF assms] float64_upper [OF assms] by (simp_all add: eps64_def)

text \<open>relative bounds compose\<close>

lemma between_trans:
  fixes x :: real
  assumes "0 \<le> c" and "c \<le> d" and "x * a \<le> y" and "y \<le> x * b"
    and "y * c \<le> z" and "z \<le> y * d"
  shows "x * (a * c) \<le> z" and "z \<le> x * (b * d)"
proof -
  have "x * a * c \<le> y * c" using assms(3,1) by (rule mult_right_mono)
  with assms(5) show "x * (a * c) \<le> z" by (simp add: mult.assoc)
  have "0 \<le> d" using assms(1,2) by simp
  then have "y * d \<le> x * b * d" using assms(4) by (intro mult_right_mono)
  with assms(6) show "z \<le> x * (b * d)" by (simp add: mult.assoc)
qed

subsection \<open>Time\<close>

lemma quo_rem_pos:
  assumes "0 < d"
  shows "0 \<le> quo d Second" and "0 \<le> rem d Second" and "rem d Second < Second"
    and "Second * quo d Second + rem d Second = d"
proof -
  have q: "quo d Second = d div Second" using assms by (simp add: quo_def Second_def)
  show "0 \<le> quo d Second" using assms unfolding q by (simp add: Second_def pos_imp_zdiv_nonneg_iff)
  have r: "rem d Second = d mod Second"
    by (simp add: rem_def q minus_mult_div_eq_mod)
  show "0 \<le> rem d Second" unfolding r by (simp add: Second_def)
  show "rem d Second < Second" unfolding r by (simp add: Second_def)
  show "Second * quo d Second + rem d Second = d" by (simp add: rem_def)
qed

lemma quo_rem_nonpos:
  assumes "d \<le> 0"
  shows "quo d Second \<le> 0" and "rem d Second \<le> 0"
proof -
  have q: "quo d Second = - (- d div Second)"
    using assms by (cases "d = 0") (simp_all add: quo_def Second_def)
  show "quo d Second \<le> 0" using assms unfolding q by (simp add: Second_def pos_imp_zdiv_nonneg_iff)
  have "rem d Second = - ((- d) mod Second)"
    by (simp add: rem_def q minus_mult_div_eq_mod [symmetric] algebra_simps)
  then show "rem d Second \<le> 0" by (simp add: Second_def del: zmod_zminus1_eq_if)
qed

lemma Seconds_pos_iff: "0 < Seconds d \<longleftrightarrow> 0 < d"
proof
  assume "0 < d"
  note qr = quo_rem_pos [OF this]
  have a: "0 \<le> float64 (real_of_int (quo d Second))"
    using qr(1) by (intro float64_nonneg) simp
  have b: "0 \<le> float64 (float64 (real_of_int (rem d Second)) / 1000000000)"
    using qr(2) by (intro float64_nonneg divide_nonneg_nonneg) simp_all
  have "quo d Second \<noteq> 0 \<or> rem d Second \<noteq> 0" using qr(4) \<open>0 < d\<close> by auto
  then have "0 < float64 (real_of_int (quo d Second)) + float64 (float64 (real_of_int (rem d Second)) / 1000000000)"
  proof
    assume "quo d Second \<noteq> 0"
    with qr(1) have "0 < real_of_int (quo d Second)" by simp
    then have "0 < float64 (real_of_int (quo d Second))" by (rule float64_pos)
    with b show ?thesis by linarith
  next
    assume "rem d Second \<noteq> 0"
    with qr(2) have "0 < real_of_int (rem d Second)" by simp
    then have "0 < float64 (real_of_int (rem d Second))" by (rule float64_pos)
    then have "0 < float64 (float64 (real_of_int (rem d Second)) / 1000000000)"
      by (intro float64_pos) simp
    with a show ?thesis by linarith
  qed
  then show "0 < Seconds d" by (simp add: Seconds_def Let_def float64_pos)
next
  assume pos: "0 < Seconds d"
  show "0 < d"
  proof (rule ccontr)
    assume "\<not> 0 < d"
    then have "d \<le> 0" by simp
    note qr = quo_rem_nonpos [OF this]
    have a: "float64 (real_of_int (quo d Second)) \<le> 0"
      using qr(1) by (intro float64_nonpos) simp
    have "float64 (real_of_int (rem d Second)) \<le> 0"
      using qr(2) by (intro float64_nonpos) simp
    then have "float64 (float64 (real_of_int (rem d Second)) / 1000000000) \<le> 0"
      by (intro float64_nonpos) (simp add: divide_nonpos_pos)
    with a have "Seconds d \<le> 0"
      by (simp add: Seconds_def Let_def float64_nonpos)
    with pos show False by simp
  qed
qed

lemma Seconds_between:
  assumes "0 < d"
  shows "real_of_int d / 1000000000 * ((1 - eps64) * (1 - eps64) * (1 - eps64)) \<le> Seconds d"
    and "Seconds d \<le> real_of_int d / 1000000000 * ((1 + eps64) * (1 + eps64) * (1 + eps64))"
proof -
  note qr = quo_rem_pos [OF assms]
  define q where "q = real_of_int (quo d Second)"
  define m where "m = real_of_int (rem d Second) / 1000000000"
  define A where "A = float64 q"
  define B1 where "B1 = float64 (real_of_int (rem d Second))"
  define B where "B = float64 (B1 / 1000000000)"
  define r where "r = 1 - eps64"
  define R where "R = 1 + eps64"
  have rR: "0 < r" "r \<le> 1" "1 \<le> R" "0 \<le> r" "r \<le> R" "0 \<le> R"
    using eps64_bounds by (simp_all add: r_def R_def)
  have q0: "0 \<le> q" and m0: "0 \<le> m" using qr by (simp_all add: q_def m_def)
  have t0: "real_of_int d / 1000000000 = q + m"
  proof -
    have "real_of_int d = real_of_int (Second * quo d Second + rem d Second)" by (simp only: qr(4))
    then show ?thesis by (simp add: q_def m_def Second_def field_simps)
  qed
  have A: "q * r \<le> A" "A \<le> q * R"
    using float64_between [OF q0] by (simp_all add: A_def r_def R_def)
  have B1: "real_of_int (rem d Second) * r \<le> B1" "B1 \<le> real_of_int (rem d Second) * R"
    using float64_between [of "real_of_int (rem d Second)"] qr(2) by (simp_all add: B1_def r_def R_def)
  have B1n: "0 \<le> B1" using qr(2) by (simp add: B1_def float64_nonneg)
  have B1': "m * r \<le> B1 / 1000000000" "B1 / 1000000000 \<le> m * R"
    using B1 by (simp_all add: m_def field_simps)
  have B0: "B1 / 1000000000 * r \<le> B" "B \<le> B1 / 1000000000 * R"
    using float64_between [of "B1 / 1000000000"] B1n by (simp_all add: B_def r_def R_def)
  have B: "m * (r * r) \<le> B" "B \<le> m * (R * R)"
    using between_trans [OF rR(4,5) B1' B0] by simp_all
  have "q * (r * r) \<le> q * r"
    using q0 rR by (intro mult_left_mono) (simp_all add: mult_left_le)
  with A(1) have Alo: "q * (r * r) \<le> A" by simp
  have "q * R \<le> q * (R * R)"
    using q0 rR by (intro mult_left_mono) (simp_all add: mult_right_le_one_le)
  with A(2) have Ahi: "A \<le> q * (R * R)" by simp
  have S: "(q + m) * (r * r) \<le> A + B" "A + B \<le> (q + m) * (R * R)"
    using Alo Ahi B by (simp_all add: distrib_right)
  have S0: "0 \<le> A + B"
    using q0 B1n by (simp add: A_def B_def float64_nonneg)
  have T: "(A + B) * r \<le> float64 (A + B)" "float64 (A + B) \<le> (A + B) * R"
    using float64_between [OF S0] by (simp_all add: r_def R_def)
  have "(q + m) * (r * r * r) \<le> float64 (A + B)" "float64 (A + B) \<le> (q + m) * (R * R * R)"
    using between_trans [OF rR(4,5) S T] by simp_all
  moreover have "Seconds d = float64 (A + B)"
    by (simp add: Seconds_def Let_def A_def B_def B1_def q_def)
  ultimately show "real_of_int d / 1000000000 * ((1 - eps64) * (1 - eps64) * (1 - eps64)) \<le> Seconds d"
    and "Seconds d \<le> real_of_int d / 1000000000 * ((1 + eps64) * (1 + eps64) * (1 + eps64))"
    by (simp_all add: t0 r_def R_def)
qed

lemma eps64_cubes:
  "1 - 1 / 2 ^ 50 \<le> (1 - eps64) * (1 - eps64) * (1 - eps64) / ((1 + eps64) * (1 + eps64) * (1 + eps64))"
  "(1 + eps64) * (1 + eps64) * (1 + eps64) / ((1 - eps64) * (1 - eps64) * (1 - eps64)) \<le> 1 + 1 / 2 ^ 50"
  by (simp_all add: eps64_def field_simps)

lemma rate_between:
  assumes D: "0 \<le> D" and d: "0 < d"
  shows "\<bar>float64 (float64 (float64 D * 8) / Seconds d) - D * 8 / (real_of_int d / 1000000000)\<bar>
           \<le> D * 8 / (real_of_int d / 1000000000) / 2 ^ 50"
proof -
  define r where "r = 1 - eps64"
  define R where "R = 1 + eps64"
  define t0 where "t0 = real_of_int d / 1000000000"
  define T where "T = Seconds d"
  define N where "N = float64 (float64 D * 8)"
  define Q where "Q = N / T"
  define F where "F = D * 8 / t0"
  have rR: "0 < r" "r \<le> 1" "1 \<le> R" "0 \<le> r" "r \<le> R" "0 \<le> R" "0 < R"
    using eps64_bounds by (simp_all add: r_def R_def)
  have r3: "0 < r * r * r" and R3: "0 < R * R * R" using rR by simp_all
  have t0: "0 < t0" using d by (simp add: t0_def)
  have T: "t0 * (r * r * r) \<le> T" "T \<le> t0 * (R * R * R)"
    using Seconds_between [OF d] by (simp_all add: t0_def T_def r_def R_def)
  have Tlo: "0 < t0 * (r * r * r)" using t0 r3 by simp
  have Tpos: "0 < T" using Tlo T(1) by linarith
  have N1: "D * r \<le> float64 D" "float64 D \<le> D * R"
    using float64_between [OF D] by (simp_all add: r_def R_def)
  have N1n: "0 \<le> float64 D" using D by (rule float64_nonneg)
  have N2: "float64 D * 8 * r \<le> N" "N \<le> float64 D * 8 * R"
    using float64_between [of "float64 D * 8"] N1n by (simp_all add: N_def r_def R_def)
  have N1': "D * 8 * r \<le> float64 D * 8" "float64 D * 8 \<le> D * 8 * R"
    using N1 by simp_all
  have N: "D * 8 * (r * r) \<le> N" "N \<le> D * 8 * (R * R)"
    using between_trans [OF rR(4,5) N1' N2] by simp_all
  have Nn: "0 \<le> N" using N1n by (simp add: N_def float64_nonneg)
  have Nhi: "0 \<le> D * 8 * (R * R)" using D rR by simp
  have Qn: "0 \<le> Q" using Nn Tpos by (simp add: Q_def)
  have Qhi: "Q \<le> D * 8 * (R * R) / (t0 * (r * r * r))"
    unfolding Q_def using Nhi N(2) Tlo T(1) by (rule frac_le)
  have Qlo: "D * 8 * (r * r) / (t0 * (R * R * R)) \<le> Q"
    unfolding Q_def using Nn N(1) Tpos T(2) by (rule frac_le)
  have G: "Q * r \<le> float64 Q" "float64 Q \<le> Q * R"
    using float64_between [OF Qn] by (simp_all add: r_def R_def)
  have Fn: "0 \<le> F" using D t0 by (simp add: F_def)
  have "float64 Q \<le> D * 8 * (R * R) / (t0 * (r * r * r)) * R"
    using G(2) mult_right_mono [OF Qhi rR(6)] by linarith
  also have "\<dots> = F * (R * R * R / (r * r * r))"
    by (simp add: F_def)
  also have "\<dots> \<le> F * (1 + 1 / 2 ^ 50)"
    using Fn eps64_cubes(2) by (intro mult_left_mono) (simp_all add: r_def R_def)
  finally have hi: "float64 Q \<le> F * (1 + 1 / 2 ^ 50)" .
  have "F * (1 - 1 / 2 ^ 50) \<le> F * (r * r * r / (R * R * R))"
    using Fn eps64_cubes(1) by (intro mult_left_mono) (simp_all add: r_def R_def)
  also have "\<dots> = D * 8 * (r * r) / (t0 * (R * R * R)) * r"
    by (simp add: F_def)
  also have "\<dots> \<le> float64 Q"
    using G(1) mult_right_mono [OF Qlo rR(4)] by linarith
  finally have lo: "F * (1 - 1 / 2 ^ 50) \<le> float64 Q" .
  have "float64 Q - F \<le> F / 2 ^ 50" and "F - float64 Q \<le> F / 2 ^ 50"
    using lo hi by (simp_all add: algebra_simps)
  then have "\<bar>float64 Q - F\<bar> \<le> F / 2 ^ 50"
    by (simp add: abs_le_iff del: power_numeral)
  then show ?thesis by (simp add: Q_def N_def T_def F_def t0_def)
qed

lemma Sub_pos_iff: "0 < Sub t u \<longleftrightarrow> u < t"
  by (auto simp: Sub_def Let_def maxDuration_def minDuration_def)

lemma Seconds_Sub_pos_iff: "0 < Seconds (Sub t u) \<longleftrightarrow> u < t"
  by (simp add: Seconds_pos_iff Sub_pos_iff)

lemma Sub_exact: "minDuration \<le> t - u \<Longrightarrow> t - u \<le> maxDuration \<Longrightarrow> Sub t u = t - u"
  by (simp add: Sub_def Let_def)

lemma Seconds_one: "Seconds (Sub 1000000000 0) = 1"
  by (simp add: Seconds_def Sub_def quo_def rem_def Second_def maxDuration_def minDuration_def
      float64_simps)

subsection \<open>Unsigned subtraction\<close>

lemma unat_sub_le:
  assumes "unat (b::64 word) \<le> unat a"
  shows "real (unat (a - b)) = real (unat a) - real (unat b)"
proof -
  have "b \<le> a" using assms by (simp add: word_le_nat_alt)
  then have "unat (a - b) = unat a - unat b" by (rule unat_sub)
  then show ?thesis using assms by (simp only: of_nat_diff)
qed

lemma unat_sub_wrap:
  assumes "unat (a::64 word) < unat b"
  shows "real (unat (a - b)) = 2 ^ 64 + real (unat a) - real (unat b)"
proof -
  have "unat b < 2 ^ 64" using unsigned_less [of b, where 'a = nat] by simp
  have "unat (a - b) = unat a + 2 ^ 64 - unat b"
    using assms by (simp add: unat_sub_if')
  then have "real (unat (a - b)) = real (unat a + 2 ^ 64 - unat b)" by (simp only:)
  also have "\<dots> = real (unat a + 2 ^ 64) - real (unat b)"
    using \<open>unat b < 2 ^ 64\<close> by (intro of_nat_diff) simp
  finally show ?thesis by (simp only: of_nat_add of_nat_power of_nat_numeral add.commute)
qed

lemma unat_below: "real (unat (b::64 word)) < 2 ^ 64"
proof -
  have "unat b < 2 ^ 64" using unsigned_less [of b, where 'a = nat] by simp
  then have "real (unat b) < real (2 ^ 64)" by (simp only: of_nat_less_iff)
  then show ?thesis by simp
qed

lemma wrapped_difference_pos: "0 < (2 ^ 64 + real (unat a) - real (unat b)) * 8"
  for a b :: "64 word"
proof -
  have "0 \<le> real (unat a)" by (rule of_nat_0_le_iff)
  with unat_below [of b] have "0 < 2 ^ 64 + real (unat a) - real (unat b)" by linarith
  then show ?thesis by simp
qed

subsection \<open>Gauges\<close>

lemma ValidString_direction: "ValidString ''receive''" "ValidString ''transmit''"
  by simp_all

lemma With_Set_valid:
  "ValidString l1 \<Longrightarrow> ValidString l2 \<Longrightarrow> With_Set vec l1 l2 v = Inr (vec((l1, l2) \<mapsto> v))"
  by (simp add: With_Set_def)

lemma With_Set_invalid:
  "\<not> (ValidString l1 \<and> ValidString l2) \<Longrightarrow> With_Set vec l1 l2 v = Inl LabelValueNotUTF8"
  by (simp add: With_Set_def)

lemma publish_valid:
  assumes "ValidString ifaceName"
  shows "publish ifaceName cur prev timeDiff st =
     Inr (st\<lparr>networkSpeedBits := (networkSpeedBits st)
                ((ifaceName, ''receive'') \<mapsto>
                   float64 (float64 (float64 (real (unat (rxBytes cur - rxBytes prev))) * 8)
                              / timeDiff),
                 (ifaceName, ''transmit'') \<mapsto>
                   float64 (float64 (float64 (real (unat (txBytes cur - txBytes prev))) * 8)
                              / timeDiff)),
             networkErrors := (networkErrors st)
                ((ifaceName, ''receive'') \<mapsto> float64 (real (unat (rxErrors cur))),
                 (ifaceName, ''transmit'') \<mapsto> float64 (real (unat (txErrors cur)))),
             networkDrops := (networkDrops st)
                ((ifaceName, ''receive'') \<mapsto> float64 (real (unat (rxDrops cur))),
                 (ifaceName, ''transmit'') \<mapsto> float64 (real (unat (txDrops cur)))),
             networkPackets := (networkPackets st)
                ((ifaceName, ''receive'') \<mapsto> float64 (real (unat (rxPackets cur))),
                 (ifaceName, ''transmit'') \<mapsto> float64 (real (unat (txPackets cur))))\<rparr>)"
  using assms
  by (simp add: publish_def Let_def With_Set_valid ValidString_direction bytesToBits_def)

lemma publish_invalid:
  "\<not> ValidString ifaceName \<Longrightarrow> publish ifaceName cur prev timeDiff st = Inl LabelValueNotUTF8"
  by (simp add: publish_def Let_def With_Set_def)

subsection \<open>One line of the counter file\<close>

lemma sample_invalid:
  "\<not> (ValidString ifaceName \<and> ValidString (lookupDescription e ifaceName)) \<Longrightarrow>
   sample e now flds ifaceName st = Inl LabelValueNotUTF8"
  by (simp add: sample_def Let_def With_Set_invalid)

lemma sample_first:
  assumes "ValidString ifaceName" and "ValidString (lookupDescription e ifaceName)"
    and "stats st ifaceName = None"
  shows "sample e now flds ifaceName st =
     Inr (st\<lparr>networkInterfaceInfo :=
               (networkInterfaceInfo st)((ifaceName, lookupDescription e ifaceName) \<mapsto> 1),
             stats := (stats st)(ifaceName \<mapsto> readCounters flds now)\<rparr>)"
  using assms by (simp add: sample_def Let_def With_Set_valid)

lemma sample_no_elapsed:
  assumes "ValidString ifaceName" and "ValidString (lookupDescription e ifaceName)"
    and "stats st ifaceName = Some prev" and "now \<le> time prev"
  shows "sample e now flds ifaceName st =
     Inr (st\<lparr>networkInterfaceInfo :=
               (networkInterfaceInfo st)((ifaceName, lookupDescription e ifaceName) \<mapsto> 1),
             stats := (stats st)(ifaceName \<mapsto> readCounters flds now)\<rparr>)"
  using assms by (simp add: sample_def Let_def With_Set_valid Seconds_Sub_pos_iff)

lemma sample_elapsed:
  assumes "ValidString ifaceName" and "ValidString (lookupDescription e ifaceName)"
    and "stats st ifaceName = Some prev" and "time prev < now"
  shows "sample e now flds ifaceName st =
     Inr (st\<lparr>networkInterfaceInfo :=
               (networkInterfaceInfo st)((ifaceName, lookupDescription e ifaceName) \<mapsto> 1),
             networkSpeedBits := (networkSpeedBits st)
                ((ifaceName, ''receive'') \<mapsto>
                   float64 (float64 (float64 (real (unat (rxBytes (readCounters flds now)
                                                             - rxBytes prev))) * 8)
                              / Seconds (Sub now (time prev))),
                 (ifaceName, ''transmit'') \<mapsto>
                   float64 (float64 (float64 (real (unat (txBytes (readCounters flds now)
                                                             - txBytes prev))) * 8)
                              / Seconds (Sub now (time prev)))),
             networkErrors := (networkErrors st)
                ((ifaceName, ''receive'') \<mapsto> float64 (real (unat (rxErrors (readCounters flds now)))),
                 (ifaceName, ''transmit'') \<mapsto> float64 (real (unat (txErrors (readCounters flds now))))),
             networkDrops := (networkDrops st)
                ((ifaceName, ''receive'') \<mapsto> float64 (real (unat (rxDrops (readCounters flds now)))),
                 (ifaceName, ''transmit'') \<mapsto> float64 (real (unat (txDrops (readCounters flds now))))),
             networkPackets := (networkPackets st)
                ((ifaceName, ''receive'') \<mapsto> float64 (real (unat (rxPackets (readCounters flds now)))),
                 (ifaceName, ''transmit'') \<mapsto> float64 (real (unat (txPackets (readCounters flds now))))),
             stats := (stats st)(ifaceName \<mapsto> readCounters flds now)\<rparr>)"
  using assms
  by (simp add: sample_def Let_def With_Set_valid Seconds_Sub_pos_iff publish_valid)

text \<open>A line that is sampled returns when its two label values are valid, whatever the
  state; and when it returns the interface-info gauge is set and the reading stored.\<close>

lemma sample_returns:
  assumes "ValidString ifaceName" and "ValidString (lookupDescription e ifaceName)"
  shows "\<exists>st'. sample e now flds ifaceName st = Inr st'"
proof (cases "stats st ifaceName")
  case None
  then show ?thesis by (simp add: sample_first [OF assms])
next
  case (Some prev)
  then show ?thesis
    by (cases "time prev < now")
      (simp_all add: sample_elapsed [OF assms] sample_no_elapsed [OF assms])
qed

lemma sample_returned:
  assumes "sample e now flds ifaceName st = Inr st'"
  shows "networkInterfaceInfo st' =
           (networkInterfaceInfo st)((ifaceName, lookupDescription e ifaceName) \<mapsto> 1)"
    and "stats st' = (stats st)(ifaceName \<mapsto> readCounters flds now)"
    and "ValidString ifaceName" and "ValidString (lookupDescription e ifaceName)"
proof -
  show v: "ValidString ifaceName" "ValidString (lookupDescription e ifaceName)"
    using assms sample_invalid [of ifaceName e now flds st] by auto
  have "networkInterfaceInfo st' =
           (networkInterfaceInfo st)((ifaceName, lookupDescription e ifaceName) \<mapsto> 1)
      \<and> stats st' = (stats st)(ifaceName \<mapsto> readCounters flds now)"
  proof (cases "stats st ifaceName")
    case None
    then show ?thesis using assms by (auto simp: sample_first [OF v])
  next
    case (Some prev)
    then show ?thesis
      using assms
      by (cases "time prev < now")
        (auto simp: sample_elapsed [OF v] sample_no_elapsed [OF v])
  qed
  then show "networkInterfaceInfo st' =
           (networkInterfaceInfo st)((ifaceName, lookupDescription e ifaceName) \<mapsto> 1)"
    and "stats st' = (stats st)(ifaceName \<mapsto> readCounters flds now)"
    by simp_all
qed


lemma processLine_skipped:
  "17 \<le> length (Fields line) \<Longrightarrow> skipped e (TrimSuffix (Fields line ! 0) '':'') \<Longrightarrow>
   processLine e now line cs = Inr ((fst cs)(TrimSuffix (Fields line ! 0) '':'' \<mapsto> True), snd cs)"
  by (simp add: processLine_def Let_def)

lemma processLine_sampled:
  "17 \<le> length (Fields line) \<Longrightarrow> \<not> skipped e (TrimSuffix (Fields line ! 0) '':'') \<Longrightarrow>
   processLine e now line cs =
     map_sum id (Pair ((fst cs)(TrimSuffix (Fields line ! 0) '':'' \<mapsto> True)))
       (sample e now (Fields line) (TrimSuffix (Fields line ! 0) '':'') (snd cs))"
  by (simp add: processLine_def Let_def)

lemma processLine_invalid:
  assumes "17 \<le> length (Fields line)"
    and "ifaceName = TrimSuffix (Fields line ! 0) '':''"
    and "\<not> skipped e ifaceName"
    and "\<not> (ValidString ifaceName \<and> ValidString (lookupDescription e ifaceName))"
  shows "processLine e now line cs = Inl LabelValueNotUTF8"
  using assms by (simp add: processLine_sampled sample_invalid)


lemma processLine_no_elapsed:
  assumes "17 \<le> length (Fields line)"
    and "ifaceName = TrimSuffix (Fields line ! 0) '':''"
    and "\<not> skipped e ifaceName"
    and "ValidString ifaceName" and "ValidString (lookupDescription e ifaceName)"
    and "stats st ifaceName = Some prev" and "now \<le> time prev"
  shows "processLine e now line (ci, st) =
     Inr (ci(ifaceName \<mapsto> True),
          st\<lparr>networkInterfaceInfo :=
               (networkInterfaceInfo st)((ifaceName, lookupDescription e ifaceName) \<mapsto> 1),
             stats := (stats st)(ifaceName \<mapsto> readCounters (Fields line) now)\<rparr>)"
proof -
  have "processLine e now line (ci, st) =
      map_sum id (Pair (ci(ifaceName \<mapsto> True))) (sample e now (Fields line) ifaceName st)"
    using assms(1,3) unfolding assms(2) by (simp add: processLine_sampled)
  then show ?thesis
    by (simp add: sample_no_elapsed [OF assms(4,5,6,7)])
qed

lemma processLine_elapsed:
  assumes "17 \<le> length (Fields line)"
    and "ifaceName = TrimSuffix (Fields line ! 0) '':''"
    and "\<not> skipped e ifaceName"
    and "ValidString ifaceName" and "ValidString (lookupDescription e ifaceName)"
    and "stats st ifaceName = Some prev" and "time prev < now"
  shows "\<exists>st'. processLine e now line (ci, st) = Inr (ci(ifaceName \<mapsto> True), st')
      \<and> networkSpeedBits st' (ifaceName, ''receive'') =
          Some (float64 (float64 (float64 (real (unat (Sscanf_d (Fields line ! 1) - rxBytes prev))) * 8)
                           / Seconds (Sub now (time prev))))
      \<and> networkSpeedBits st' (ifaceName, ''transmit'') =
          Some (float64 (float64 (float64 (real (unat (Sscanf_d (Fields line ! 9) - txBytes prev))) * 8)
                           / Seconds (Sub now (time prev))))
      \<and> stats st' = (stats st)(ifaceName \<mapsto> readCounters (Fields line) now)
      \<and> networkInterfaceInfo st' =
          (networkInterfaceInfo st)((ifaceName, lookupDescription e ifaceName) \<mapsto> 1)"
proof -
  have "processLine e now line (ci, st) =
      map_sum id (Pair (ci(ifaceName \<mapsto> True))) (sample e now (Fields line) ifaceName st)"
    using assms(1,3) unfolding assms(2) by (simp add: processLine_sampled)
  then show ?thesis
    by (simp add: sample_elapsed [OF assms(4,5,6,7)] readCounters_def)
qed

subsection \<open>The scan of the file\<close>











lemma iteration_panics:
  assumes "procNetDev e = Inr lines"
    and "scanLines e 0 (drop 2 lines) (Map.empty, st) = Inl p"
  shows "iteration e st = Inl p"
  using assms by (simp add: iteration_def)

lemma Sscanf_d_error: "scanUint s = None \<Longrightarrow> Sscanf_d s = 0"
  by (simp add: Sscanf_d_def)

subsection \<open>Addresses\<close>

lemma IndexByte_None_iff: "IndexByte s c = None \<longleftrightarrow> c \<notin> set s"
  by (induction s) auto

lemma IndexByte_first: "c \<notin> set xs \<Longrightarrow> IndexByte (xs @ c # ys) c = Some (length xs)"
  by (induction xs) auto

lemma LastIndexByte_None_iff: "LastIndexByte s c = None \<longleftrightarrow> c \<notin> set s"
  by (simp add: LastIndexByte_def IndexByte_None_iff)

lemma LastIndexByte_last: "c \<notin> set ys \<Longrightarrow> LastIndexByte (xs @ c # ys) c = Some (length xs)"
  using IndexByte_first [of c "rev ys" "rev xs"] by (simp add: LastIndexByte_def)

lemma matchAllowed_iff: "matchAllowed ip allowedList \<longleftrightarrow> ip \<in> set (map TrimSpace allowedList)"
  by (induction allowedList) auto

lemma SplitHostPort_host_port:
  assumes "CHR '':'' \<notin> set h" "CHR ''['' \<notin> set h" "CHR '']'' \<notin> set h"
    and "CHR '':'' \<notin> set p" "CHR ''['' \<notin> set p" "CHR '']'' \<notin> set p"
  shows "SplitHostPort (h @ '':'' @ p) = Inr (h, p)"
proof -
  have i: "LastIndexByte (h @ CHR '':'' # p) (CHR '':'') = Some (length h)"
    using assms(4) by (rule LastIndexByte_last)
  have first: "(h @ CHR '':'' # p) ! 0 \<noteq> CHR ''[''"
    using assms(2) by (cases h) auto
  have nocolon: "IndexByte h (CHR '':'') = None"
    using assms(1) by (simp add: IndexByte_None_iff)
  have noopen: "IndexByte (h @ CHR '':'' # p) (CHR ''['') = None"
    using assms(2,5) by (simp add: IndexByte_None_iff)
  have noclose: "IndexByte (h @ CHR '':'' # p) (CHR '']'') = None"
    using assms(3,6) by (simp add: IndexByte_None_iff)
  show ?thesis
    using first by (simp add: SplitHostPort_def i checkBrackets_def nocolon noopen noclose)
qed

lemma SplitHostPort_bracketed:
  assumes "CHR ''['' \<notin> set h" "CHR '']'' \<notin> set h"
    and "CHR '':'' \<notin> set p" "CHR ''['' \<notin> set p" "CHR '']'' \<notin> set p"
  shows "SplitHostPort (''['' @ h @ '']:'' @ p) = Inr (h, p)"
proof -
  let ?s = "CHR ''['' # h @ CHR '']'' # CHR '':'' # p"
  have "LastIndexByte ((CHR ''['' # h @ [CHR '']'']) @ CHR '':'' # p) (CHR '':'') =
      Some (length (CHR ''['' # h @ [CHR '']'']))"
    using assms(3) by (rule LastIndexByte_last)
  then have i: "LastIndexByte ?s (CHR '':'') = Some (length h + 2)" by simp
  have e: "IndexByte (h @ CHR '']'' # CHR '':'' # p) (CHR '']'') = Some (length h)"
    using assms(2) by (rule IndexByte_first)
  have noopen: "IndexByte (h @ CHR '']'' # CHR '':'' # p) (CHR ''['') = None"
    using assms(1,4) by (simp add: IndexByte_None_iff)
  have noclose: "IndexByte (CHR '':'' # p) (CHR '']'') = None"
    using assms(5) by (simp add: IndexByte_None_iff)
  have "SplitHostPort ?s = Inr (h, p)"
    using noopen noclose
    by (simp add: SplitHostPort_def i e checkBrackets_def)
  then show ?thesis by simp
qed

lemma sourceIP_host_port:
  assumes "CHR '':'' \<notin> set h" "CHR ''['' \<notin> set h" "CHR '']'' \<notin> set h"
    and "CHR '':'' \<notin> set p" "CHR ''['' \<notin> set p" "CHR '']'' \<notin> set p"
  shows "sourceIP (h @ '':'' @ p) = h"
  by (simp only: sourceIP_def SplitHostPort_host_port [OF assms] sum.case fst_conv)

lemma sourceIP_bracketed:
  assumes "CHR ''['' \<notin> set h" "CHR '']'' \<notin> set h"
    and "CHR '':'' \<notin> set p" "CHR ''['' \<notin> set p" "CHR '']'' \<notin> set p"
  shows "sourceIP (''['' @ h @ '']:'' @ p) = h"
  by (simp only: sourceIP_def SplitHostPort_bracketed [OF assms] sum.case fst_conv)

lemma sourceIP_no_port: "CHR '':'' \<notin> set a \<Longrightarrow> sourceIP a = a"
  by (simp add: sourceIP_def SplitHostPort_def LastIndexByte_None_iff [THEN iffD2])

lemma isIPAllowed_iff:
  "isIPAllowed allowedIPs remoteAddr \<longleftrightarrow>
     allowedIPs = [] \<or> sourceIP remoteAddr \<in> set (map TrimSpace (Split allowedIPs (CHR '','')))"
  by (simp add: isIPAllowed_def matchAllowed_iff)

subsection \<open>Capacity enforcement\<close>

lemma insertLess_insort_key:
  "insertLess (\<lambda>a b. f a < f b) x ys = insort_key f x ys" for f :: "'a \<Rightarrow> 'b::linorder"
  by (induction ys) auto

lemma sort_Slice_sort_key:
  "sort_Slice (\<lambda>a b. f a < f b) xs = sort_key f xs" for f :: "'a \<Rightarrow> 'b::linorder"
  by (simp add: sort_Slice_def sort_key_def insertLess_insort_key [abs_def])

lemma fold_delete_indices:
  "n \<le> length xs \<Longrightarrow>
   fold (\<lambda>i m'. m'(xs ! i := None)) [0 ..< n] m = (\<lambda>k. if k \<in> set (take n xs) then None else m k)"
proof (induction n)
  case 0
  then show ?case by simp
next
  case (Suc n)
  then have "take (Suc n) xs = take n xs @ [xs ! n]"
    by (simp add: take_Suc_conv_app_nth)
  with Suc show ?case by (auto simp: fun_eq_iff)
qed

lemma sort_Slice_of_sorted:
  "sorted (map f xs) \<Longrightarrow> sort_Slice (\<lambda>a b. f a < f b) xs = xs" for f :: "'a \<Rightarrow> 'b::linorder"
  by (simp add: sort_Slice_sort_key sort_key_id_if_sorted)

lemma sorted_permutation_unique:
  fixes f :: "'a \<Rightarrow> 'b::linorder"
  assumes "mset ys = mset xs" and "inj_on f (set xs)" and "sorted (map f ys)"
  shows "ys = sort_Slice (\<lambda>a b. f a < f b) xs"
proof -
  have "sort_key f xs = ys"
    by (rule sort_key_inj_key_eq [OF assms(1) [symmetric] assms(2,3)])
  then show ?thesis by (simp only: sort_Slice_sort_key)
qed

lemma enforceCapacity_over:
  "maxInterfaces < card (dom m) \<Longrightarrow>
   enforceCapacity order m = (\<lambda>k. if k \<in> set (oldest order m) then None else m k)"
  by (simp add: enforceCapacity_def Let_def Before_def sort_Slice_sort_key fold_delete_indices oldest_def)

lemma enforceCapacity_under:
  "card (dom m) \<le> maxInterfaces \<Longrightarrow> enforceCapacity order m = m"
  by (simp add: enforceCapacity_def)

lemma dom_enforceCapacity_over:
  "maxInterfaces < card (dom m) \<Longrightarrow>
   dom (enforceCapacity order m) = dom m - set (oldest order m)"
  by (auto simp: enforceCapacity_over dom_def)

lemma rangeOf_card: "rangeOf m order \<Longrightarrow> card (dom m) = length order"
  by (metis rangeOf_def distinct_card)

lemma oldest_subset: "rangeOf m order \<Longrightarrow> set (oldest order m) \<subseteq> dom m"
  unfolding oldest_def rangeOf_def
  by (metis set_sort set_take_subset)

lemma oldest_length: "length (oldest order m) = length order - maxInterfaces"
  by (simp add: oldest_def)

lemma oldest_distinct: "rangeOf m order \<Longrightarrow> distinct (oldest order m)"
  by (simp add: oldest_def rangeOf_def)

lemma oldest_card: "rangeOf m order \<Longrightarrow> card (set (oldest order m)) = length order - maxInterfaces"
  by (simp add: distinct_card oldest_distinct oldest_length)

lemma oldest_le_kept:
  assumes "rangeOf m order" and "a \<in> set (oldest order m)"
    and "b \<in> dom m - set (oldest order m)"
  shows "lastSeen (index m a) \<le> lastSeen (index m b)"
proof -
  let ?f = "\<lambda>k. lastSeen (index m k)"
  let ?ys = "sort_key ?f order"
  let ?n = "length order - maxInterfaces"
  have "sorted (map ?f (take ?n ?ys @ drop ?n ?ys))"
    by (simp only: append_take_drop_id sorted_sort_key)
  then have le: "\<forall>x\<in>set (take ?n ?ys). \<forall>y\<in>set (drop ?n ?ys). ?f x \<le> ?f y"
    unfolding map_append sorted_append by simp
  have "set ?ys = set (take ?n ?ys) \<union> set (drop ?n ?ys)"
    by (metis append_take_drop_id set_append)
  then have "b \<in> set (drop ?n ?ys)"
    using assms(1,3) by (auto simp: oldest_def rangeOf_def)
  with le assms(2) show ?thesis by (simp add: oldest_def)
qed

lemma map_sort_key: "map f (sort_key f xs) = sort (map f xs)"
  by (rule properties_for_sort [symmetric]) simp_all

lemma sort_map_perm: "mset xs = mset ys \<Longrightarrow> sort (map f xs) = sort (map f ys)"
  by (rule properties_for_sort) simp_all

lemma rangeOf_mset: "rangeOf m order1 \<Longrightarrow> rangeOf m order2 \<Longrightarrow> mset order1 = mset order2"
  by (simp add: rangeOf_def set_eq_iff_mset_eq_distinct [symmetric])

lemma seen_oldest:
  "map (\<lambda>k. lastSeen (index m k)) (oldest order m) =
     take (length order - maxInterfaces) (sort (map (\<lambda>k. lastSeen (index m k)) order))"
  by (simp only: oldest_def take_map [symmetric] map_sort_key)

lemma evicted_over:
  assumes "rangeOf m order" and "maxInterfaces < card (dom m)"
  shows "dom m - dom (enforceCapacity order m) = set (oldest order m)"
  using oldest_subset [OF assms(1)] dom_enforceCapacity_over [OF assms(2), of order] by auto

lemma card_kept:
  assumes "rangeOf m order"
  shows "card (dom (enforceCapacity order m)) = min (card (dom m)) maxInterfaces"
proof (cases "maxInterfaces < card (dom m)")
  case True
  have fin: "finite (set (oldest order m))" by simp
  have "card (dom m - set (oldest order m)) = card (dom m) - card (set (oldest order m))"
    by (rule card_Diff_subset [OF fin oldest_subset [OF assms]])
  then show ?thesis
    using True oldest_card [OF assms] rangeOf_card [OF assms]
    by (simp add: dom_enforceCapacity_over)
next
  case False
  then show ?thesis by (simp add: enforceCapacity_under)
qed

subsection \<open>The tables over capacity\<close>

lemma digit_inj: "a < 10 \<Longrightarrow> b < 10 \<Longrightarrow> digit a = digit b \<Longrightarrow> a = b"
  unfolding digit_def by (subst (asm) nth_eq_iff_index_eq) simp_all

lemma digits_eq: "i div 10 = j div 10 \<Longrightarrow> i mod 10 = j mod 10 \<Longrightarrow> i = j" for i j :: nat
  by (metis div_mult_mod_eq)

lemma ifname_inj:
  assumes "i < 10000" "j < 10000" "ifname i = ifname j"
  shows "i = j"
proof -
  have d: "digit (i div 1000 mod 10) = digit (j div 1000 mod 10)"
    "digit (i div 100 mod 10) = digit (j div 100 mod 10)"
    "digit (i div 10 mod 10) = digit (j div 10 mod 10)"
    "digit (i mod 10) = digit (j mod 10)"
    using assms(3) by (simp_all add: ifname_def)
  have e3: "i div 1000 mod 10 = j div 1000 mod 10" by (rule digit_inj [OF _ _ d(1)]) simp_all
  have e2: "i div 100 mod 10 = j div 100 mod 10" by (rule digit_inj [OF _ _ d(2)]) simp_all
  have e1: "i div 10 mod 10 = j div 10 mod 10" by (rule digit_inj [OF _ _ d(3)]) simp_all
  have e0: "i mod 10 = j mod 10" by (rule digit_inj [OF _ _ d(4)]) simp_all
  have "i div 1000 < 10" "j div 1000 < 10" using assms(1,2) by simp_all
  with e3 have t3: "i div 1000 = j div 1000" by simp
  have c: "k div 100 div 10 = k div 1000" "k div 10 div 10 = k div 100" for k :: nat
    by (simp_all add: div_mult2_eq [symmetric])
  have t2: "i div 100 = j div 100"
    by (rule digits_eq) (simp_all only: c t3 e2)
  have t1: "i div 10 = j div 10"
    by (rule digits_eq) (simp_all only: c t2 e1)
  show ?thesis
    by (rule digits_eq) (simp_all only: t1 e0)
qed

lemma ifname_inj_on: "n \<le> 10000 \<Longrightarrow> inj_on ifname {0 ..< n}"
  by (rule inj_onI) (auto intro: ifname_inj)

lemma distinct_walkUp: "n \<le> 10000 \<Longrightarrow> distinct (walkUp n)"
  by (simp add: walkUp_def distinct_map ifname_inj_on)

lemma set_walkUp: "set (walkUp n) = ifname ` {0 ..< n}"
  by (simp add: walkUp_def)

lemma dom_crowd: "dom (crowd seen n) = ifname ` {0 ..< n}"
  by (auto simp: crowd_def dom_map_of_conv_image_fst image_image)

lemma crowd_at:
  assumes "n \<le> 10000" "i < n"
  shows "crowd seen n (ifname i) = Some (seenAt (seen i))"
proof -
  have "distinct (map fst (map (\<lambda>i. (ifname i, seenAt (seen i))) [0 ..< n]))"
    using distinct_walkUp [OF assms(1)] by (simp add: walkUp_def comp_def)
  moreover have "(ifname i, seenAt (seen i)) \<in> set (map (\<lambda>i. (ifname i, seenAt (seen i))) [0 ..< n])"
    using assms(2) by auto
  ultimately show ?thesis
    unfolding crowd_def by (rule map_of_is_SomeI)
qed

lemma lastSeen_crowd:
  "n \<le> 10000 \<Longrightarrow> i < n \<Longrightarrow> lastSeen (index (crowd seen n) (ifname i)) = seen i"
  by (simp add: index_def crowd_at seenAt_def)

lemma card_crowd: "n \<le> 10000 \<Longrightarrow> card (dom (crowd seen n)) = n"
  by (simp add: dom_crowd card_image ifname_inj_on)

lemma rangeOf_walkUp: "n \<le> 10000 \<Longrightarrow> rangeOf (crowd seen n) (walkUp n)"
  by (simp add: rangeOf_def distinct_walkUp set_walkUp dom_crowd)

lemma rangeOf_walkDown: "n \<le> 10000 \<Longrightarrow> rangeOf (crowd seen n) (walkDown n)"
  using rangeOf_walkUp [of n seen] by (simp add: rangeOf_def walkDown_def)

lemma inj_lastSeen_crowd:
  assumes "n \<le> 10000" "inj_on seen {0 ..< n}"
  shows "inj_on (\<lambda>k. lastSeen (index (crowd seen n) k)) (dom (crowd seen n))"
proof (rule inj_onI)
  fix a b
  assume "a \<in> dom (crowd seen n)" "b \<in> dom (crowd seen n)"
    and eq: "lastSeen (index (crowd seen n) a) = lastSeen (index (crowd seen n) b)"
  then obtain i j where ij: "i < n" "a = ifname i" "j < n" "b = ifname j"
    by (auto simp: dom_crowd)
  with eq assms(1) have "seen i = seen j" by (simp add: lastSeen_crowd)
  with assms(2) ij show "a = b" by (auto dest: inj_onD)
qed

lemma ifname_first: "ifname 0 = ''veth0000''"
  by (simp add: ifname_def digit_def)

lemma crowded_small: "Suc maxInterfaces \<le> 10000"
  by (simp add: maxInterfaces_def)

lemma sort_key_tied: "\<forall>x\<in>set xs. f x = c \<Longrightarrow> sort_key f xs = xs"
  by (induction xs) (simp_all add: insort_is_Cons)

lemma take_walkUp: "take 1 (walkUp (Suc n)) = [ifname 0]"
  by (simp add: walkUp_def take_map upt_conv_Cons del: upt_Suc)

lemma take_walkDown: "take 1 (walkDown (Suc n)) = [ifname n]"
  by (simp add: walkDown_def walkUp_def)

lemma oldest_tied:
  assumes "rangeOf m order" and "\<forall>k\<in>dom m. lastSeen (index m k) = c"
  shows "oldest order m = take (length order - maxInterfaces) order"
proof -
  have "\<forall>k\<in>set order. lastSeen (index m k) = c"
    using assms by (simp add: rangeOf_def)
  then have "sort_key (\<lambda>k. lastSeen (index m k)) order = order"
    by (rule sort_key_tied)
  then show ?thesis by (simp add: oldest_def)
qed

lemma over_crowd: "maxInterfaces < card (dom (crowd seen (Suc maxInterfaces)))"
  by (simp add: card_crowd [OF crowded_small])

lemma inj_agedTable: "inj_on (\<lambda>k. lastSeen (index agedTable k)) (dom agedTable)"
  unfolding agedTable_def by (rule inj_lastSeen_crowd [OF crowded_small]) simp

lemma oldest_tiedTable_up: "oldest (walkUp (Suc maxInterfaces)) tiedTable = [ifname 0]"
proof -
  have "oldest (walkUp (Suc maxInterfaces)) tiedTable
      = take (length (walkUp (Suc maxInterfaces)) - maxInterfaces) (walkUp (Suc maxInterfaces))"
    unfolding tiedTable_def
    by (rule oldest_tied [OF rangeOf_walkUp [OF crowded_small], where c = 0])
      (auto simp: dom_crowd lastSeen_crowd [OF crowded_small])
  also have "length (walkUp (Suc maxInterfaces)) - maxInterfaces = 1"
    by (simp add: walkUp_def)
  finally show ?thesis by (simp only: take_walkUp)
qed

lemma oldest_tiedTable_down: "oldest (walkDown (Suc maxInterfaces)) tiedTable = [ifname maxInterfaces]"
proof -
  have "oldest (walkDown (Suc maxInterfaces)) tiedTable
      = take (length (walkDown (Suc maxInterfaces)) - maxInterfaces) (walkDown (Suc maxInterfaces))"
    unfolding tiedTable_def
    by (rule oldest_tied [OF rangeOf_walkDown [OF crowded_small], where c = 0])
      (auto simp: dom_crowd lastSeen_crowd [OF crowded_small])
  also have "length (walkDown (Suc maxInterfaces)) - maxInterfaces = 1"
    by (simp add: walkUp_def walkDown_def)
  finally show ?thesis by (simp only: take_walkDown)
qed

lemma ifname_maxInterfaces: "ifname maxInterfaces = ''veth1000''"
  by (simp add: maxInterfaces_def ifname_def digit_def)

subsection \<open>The concrete inputs, evaluated\<close>

lemmas utf8_simps = DecodeRuneInString_def DecodeLastRuneInString_def IsSpace_def first_def
  cont_def RuneStart_def RuneError_def Let_def scanBack.simps lastIndexNonSpace.simps
  TrimRightSpace_def TrimSpace_def

lemma Fields_lineA:
  "Fields lineA = [''eth0:'', ''1000'', ''10'', ''0'', ''0'', ''0'', ''0'', ''0'', ''0'',
     ''500'', ''5'', ''0'', ''0'', ''0'', ''0'', ''0'', ''0'']"
  by (simp add: lineA_def Fields_def IsSpace_def Let_def DecodeRuneInString_def)

lemma Fields_lineB:
  "Fields lineB = [''eth0:'', ''2000'', ''20'', ''1'', ''2'', ''0'', ''0'', ''0'', ''0'',
     ''1500'', ''15'', ''3'', ''4'', ''0'', ''0'', ''0'', ''0'']"
  by (simp add: lineB_def Fields_def IsSpace_def Let_def DecodeRuneInString_def)

lemma Fields_lineBad:
  "Fields lineBad = [''eth0:'', ''n/a'', ''10'', ''0'', ''0'', ''0'', ''0'', ''0'', ''0'',
     ''500'', ''5'', ''0'', ''0'', ''0'', ''0'', ''0'', ''0'']"
  by (simp add: lineBad_def Fields_def IsSpace_def Let_def DecodeRuneInString_def)

text \<open>White space that is not ASCII separates fields (\<open>U+0085\<close>, encoded \<open>C2 85\<close>),
  and a byte \<open>85\<close> that is no encoding of it does not.\<close>

lemma Fields_examples:
  "Fields (''a'' @ [CHR 0xC2, CHR 0x85] @ ''b'') = [''a'', ''b'']"
  "Fields (''a'' @ [CHR 0x85] @ ''b'') = [''a'' @ [CHR 0x85] @ ''b'']"
  "Fields (''a'' @ [CHR 0xE3, CHR 0x80, CHR 0x80] @ ''b'') = [''a'', ''b'']"
  by (simp_all add: Fields_def utf8_simps)

lemma TrimSuffix_eth0: "TrimSuffix ''eth0:'' '':'' = ''eth0''"
  by (simp add: TrimSuffix_def)

lemmas scan_simps = Sscanf_d_def scanUint_def ParseUint_def isDigit_def digitVal_def

text \<open>What \<open>Sscanf\<close> makes of a field: digits followed by something else are read as the
  digits; no leading digit, or a number of more than 64 bits, is an error.\<close>

lemma scanUint_examples:
  "scanUint ''1500'' = Some 1500"
  "scanUint ''12abc'' = Some 12"
  "scanUint ''n/a'' = None"
  "scanUint ''-5'' = None"
  "scanUint [] = None"
  "scanUint ''18446744073709551615'' = Some (- 1)"
  "scanUint ''18446744073709551616'' = None"
  by (simp_all add: scanUint_def ParseUint_def isDigit_def digitVal_def)

lemma readCounters_lineA: "readCounters (Fields lineA) t = readingA t"
  by (simp add: Fields_lineA readCounters_def readingA_def scan_simps)

lemma readCounters_lineB: "readCounters (Fields lineB) t = readingB t"
  by (simp add: Fields_lineB readCounters_def readingB_def scan_simps)

lemma readCounters_lineBad: "readCounters (Fields lineBad) t = readingBad t"
  by (simp add: Fields_lineBad readCounters_def readingBad_def scan_simps)

lemma not_skipped_hostUp: "\<not> skipped hostUp ''eth0''"
  by (simp add: skipped_def hostUp_def FlagUp_def FlagLoopback_def)

lemma skipped_hostDown: "skipped hostDown ''eth0''"
  by (simp add: skipped_def hostDown_def hostUp_def FlagUp_def FlagLoopback_def)

lemma not_skipped_hostBadAlias: "\<not> skipped hostBadAlias ''eth0''"
  by (simp add: skipped_def hostBadAlias_def hostUp_def FlagUp_def FlagLoopback_def)

lemma length_lineA: "17 \<le> length (Fields lineA)"
  by (simp add: Fields_lineA)

lemma length_lineB: "17 \<le> length (Fields lineB)"
  by (simp add: Fields_lineB)

lemma length_lineBad: "17 \<le> length (Fields lineBad)"
  by (simp add: Fields_lineBad)

lemma name_lineA: "''eth0'' = TrimSuffix (Fields lineA ! 0) '':''"
  by (simp add: Fields_lineA TrimSuffix_eth0)

lemma name_lineB: "''eth0'' = TrimSuffix (Fields lineB ! 0) '':''"
  by (simp add: Fields_lineB TrimSuffix_eth0)

lemma name_lineBad: "''eth0'' = TrimSuffix (Fields lineBad ! 0) '':''"
  by (simp add: Fields_lineBad TrimSuffix_eth0)

lemma stats_afterA: "stats afterA ''eth0'' = Some (readingA 0)"
  by (simp add: afterA_def)

lemma stats_afterB: "stats afterB ''eth0'' = Some (readingB 0)"
  by (simp add: afterB_def)


lemma time_readingA: "time (readingA 0) < 1000000000"
  by (simp add: readingA_def)

lemma time_readingB: "time (readingB 0) < 1000000000"
  by (simp add: readingB_def)

lemma TrimSpace_examples:
  "TrimSpace ''10.0.0.1'' = ''10.0.0.1''"
  "TrimSpace '' 10.0.0.3'' = ''10.0.0.3''"
  "TrimSpace (''10.0.0.1'' @ [CHR 0xC2, CHR 0xA0]) = ''10.0.0.1''"
  "TrimSpace (''uplink'' @ [CHR 0x0A]) = ''uplink''"
  "TrimSpace [CHR 0xFF, CHR 0x0A] = [CHR 0xFF]"
  by (simp_all add: utf8_simps)

lemma description_hostUp: "lookupDescription hostUp ''eth0'' = ''uplink''"
  using TrimSpace_examples(4) by (simp add: lookupDescription_def hostUp_def)

lemma description_hostBadAlias: "lookupDescription hostBadAlias ''eth0'' = [CHR 0xFF]"
  using TrimSpace_examples(5) by (simp add: lookupDescription_def hostBadAlias_def hostUp_def)

lemma ValidString_examples:
  "ValidString ''eth0''"
  "ValidString ''uplink''"
  "\<not> ValidString [CHR 0xFF]"
  "ValidString [CHR 0xC3, CHR 0xA9]"
  "\<not> ValidString [CHR 0xC3]"
  by (simp_all add: first_def cont_def)

lemma valid_hostUp: "ValidString (lookupDescription hostUp ''eth0'')"
  by (simp add: description_hostUp)

lemma Split_single: "Split ''10.0.0.1'' (CHR '','') = [''10.0.0.1'']"
  by simp

lemma sourceIP_examples:
  "sourceIP ''10.0.0.1'' = ''10.0.0.1''"
  "sourceIP ''10.0.0.1:51234'' = ''10.0.0.1''"
  "sourceIP ''10.0.0.2'' = ''10.0.0.2''"
  "sourceIP ''10.0.0.2:51234'' = ''10.0.0.2''"
  "sourceIP ''10.0.0.1:80'' = ''10.0.0.1''"
  by (simp_all add: sourceIP_def SplitHostPort_def LastIndexByte_def checkBrackets_def)

subsection \<open>Values the examples round\<close>

lemma float64_wrapped:
  "float64 18446744073709550616 = 18446744073709551616"
  "float64 147573952589676412928 = 147573952589676412928"
  using float64_2_64_minus_1000 float64_power2 [of 67] by simp_all

section \<open>The claims\<close>

text \<open>
  C1. When an interface has a stored previous sample \<open>prev\<close> (counters C1, taken at
  \<open>T1 = time prev\<close>) and its line is read at \<open>now = T2\<close> with \<open>T2 > T1\<close>, the line
  publishes a receive rate and a transmit rate. The receive rate is the \<open>float64\<close>
  computed as \<open>float64(C2.rxBytes - C1.rxBytes) * 8 / timeDiff\<close>, and whenever
  \<open>C2.rxBytes \<ge> C1.rxBytes\<close> it equals \<open>(C2.rxBytes - C1.rxBytes) * 8 / (T2 - T1)\<close>
  within floating-point tolerance: the two differ by at most \<open>2^-50\<close> of the latter.
  The same holds of the transmit rate. The differences are those of the numbers, the
  elapsed time is in seconds (the nanoseconds between the two readings over \<open>1e9\<close>, as
  long as they fit a \<open>Duration\<close>). There is a current reading when the loop gets to
  read the counters of the line: the line has at least 17 fields, its interface is found,
  up and not loopback, and the interface name and its description are valid UTF-8, so
  that setting the interface-info gauge, which comes before the reading, does not panic.
\<close>

theorem rate_formula:
  assumes "17 \<le> length (Fields line)"
    and "ifaceName = TrimSuffix (Fields line ! 0) '':''"
    and "\<not> skipped e ifaceName"
    and "ValidString ifaceName" and "ValidString (lookupDescription e ifaceName)"
    and "stats st ifaceName = Some prev"
    and "time prev < now"
    and "rx = Sscanf_d (Fields line ! 1)" and "tx = Sscanf_d (Fields line ! 9)"
  shows "\<exists>st' rxSpeed txSpeed.
      processLine e now line (ci, st) = Inr (ci(ifaceName \<mapsto> True), st')
    \<and> networkSpeedBits st' (ifaceName, ''receive'') = Some rxSpeed
    \<and> networkSpeedBits st' (ifaceName, ''transmit'') = Some txSpeed
    \<and> rxSpeed = float64 (float64 (float64 (real (unat (rx - rxBytes prev))) * 8)
                            / Seconds (Sub now (time prev)))
    \<and> txSpeed = float64 (float64 (float64 (real (unat (tx - txBytes prev))) * 8)
                            / Seconds (Sub now (time prev)))
    \<and> (unat (rxBytes prev) \<le> unat rx \<and> now - time prev \<le> maxDuration \<longrightarrow>
          \<bar>rxSpeed - (real (unat rx) - real (unat (rxBytes prev))) * 8
                       / (real_of_int (now - time prev) / 1000000000)\<bar>
            \<le> (real (unat rx) - real (unat (rxBytes prev))) * 8
                  / (real_of_int (now - time prev) / 1000000000) / 2 ^ 50)
    \<and> (unat (txBytes prev) \<le> unat tx \<and> now - time prev \<le> maxDuration \<longrightarrow>
          \<bar>txSpeed - (real (unat tx) - real (unat (txBytes prev))) * 8
                       / (real_of_int (now - time prev) / 1000000000)\<bar>
            \<le> (real (unat tx) - real (unat (txBytes prev))) * 8
                  / (real_of_int (now - time prev) / 1000000000) / 2 ^ 50)"
proof -
  from processLine_elapsed [OF assms(1-7), of ci] obtain st' where
    ret: "processLine e now line (ci, st) = Inr (ci(ifaceName \<mapsto> True), st')"
    and rxg: "networkSpeedBits st' (ifaceName, ''receive'') =
      Some (float64 (float64 (float64 (real (unat (rx - rxBytes prev))) * 8)
                       / Seconds (Sub now (time prev))))"
    and txg: "networkSpeedBits st' (ifaceName, ''transmit'') =
      Some (float64 (float64 (float64 (real (unat (tx - txBytes prev))) * 8)
                       / Seconds (Sub now (time prev))))"
    unfolding assms(8,9) by blast
  have d: "0 < now - time prev" using assms(7) by simp
  have sub: "now - time prev \<le> maxDuration \<Longrightarrow> Sub now (time prev) = now - time prev"
    using d by (intro Sub_exact) (simp_all add: minDuration_def)
  have tol: "\<bar>float64 (float64 (float64 (real (unat (c - p))) * 8) / Seconds (Sub now (time prev)))
        - (real (unat c) - real (unat p)) * 8 / (real_of_int (now - time prev) / 1000000000)\<bar>
      \<le> (real (unat c) - real (unat p)) * 8 / (real_of_int (now - time prev) / 1000000000) / 2 ^ 50"
    if "unat p \<le> unat c" and "now - time prev \<le> maxDuration" for c p :: "64 word"
  proof -
    have "0 \<le> real (unat c) - real (unat p)"
      using that(1) by (simp only: diff_ge_0_iff_ge of_nat_le_iff)
    from rate_between [OF this d] show ?thesis
      by (simp only: unat_sub_le [OF that(1)] sub [OF that(2)])
  qed
  show ?thesis
    using ret rxg txg tol by blast
qed

text \<open>The scenario of two readings one second apart: 1000 and 500 bytes, then 2000 and
  1500 bytes, give 8000 bits per second in both directions.\<close>

theorem rate_formula_witness:
  "\<exists>st'. processLine hostUp 1000000000 lineB (Map.empty, afterA) = Inr ([''eth0'' \<mapsto> True], st')
     \<and> networkSpeedBits st' (''eth0'', ''receive'') = Some 8000
     \<and> networkSpeedBits st' (''eth0'', ''transmit'') = Some 8000"
  using rate_formula [OF length_lineB name_lineB not_skipped_hostUp ValidString_examples(1)
      valid_hostUp stats_afterA time_readingA refl refl, of Map.empty]
  by (auto simp: Fields_lineB scan_simps readingA_def Seconds_one float64_simps)

text \<open>
  C2, as the code has it. The claim reads: when the current byte counter is strictly
  smaller than the stored one and the elapsed time is strictly positive, the published
  rate is the negative number (current minus previous) times 8 over the elapsed seconds.
  The counters are \<open>uint64\<close> and the program subtracts them before converting to
  \<open>float64\<close>, so the difference wraps: the published rate is the \<open>float64\<close> computed
  from \<open>2^64 + current - previous\<close>, times 8, over the elapsed seconds. It is strictly
  positive, it is within \<open>2^-50\<close> of \<open>(2^64 + current - previous) * 8 / (T2 - T1)\<close>,
  and nothing clamps it to zero. As for C1, the line is one whose counters the loop gets
  to read.
\<close>

theorem wrapped_rate:
  assumes "17 \<le> length (Fields line)"
    and "ifaceName = TrimSuffix (Fields line ! 0) '':''"
    and "\<not> skipped e ifaceName"
    and "ValidString ifaceName" and "ValidString (lookupDescription e ifaceName)"
    and "stats st ifaceName = Some prev"
    and "time prev < now"
    and "rx = Sscanf_d (Fields line ! 1)" and "tx = Sscanf_d (Fields line ! 9)"
  shows "\<exists>st' rxSpeed txSpeed.
      processLine e now line (ci, st) = Inr (ci(ifaceName \<mapsto> True), st')
    \<and> networkSpeedBits st' (ifaceName, ''receive'') = Some rxSpeed
    \<and> networkSpeedBits st' (ifaceName, ''transmit'') = Some txSpeed
    \<and> (unat rx < unat (rxBytes prev) \<longrightarrow>
          rxSpeed = float64 (float64 (float64 (2 ^ 64 + real (unat rx) - real (unat (rxBytes prev))) * 8)
                               / Seconds (Sub now (time prev)))
          \<and> 0 < rxSpeed
          \<and> (now - time prev \<le> maxDuration \<longrightarrow>
                \<bar>rxSpeed - (2 ^ 64 + real (unat rx) - real (unat (rxBytes prev))) * 8
                             / (real_of_int (now - time prev) / 1000000000)\<bar>
                  \<le> (2 ^ 64 + real (unat rx) - real (unat (rxBytes prev))) * 8
                        / (real_of_int (now - time prev) / 1000000000) / 2 ^ 50))
    \<and> (unat tx < unat (txBytes prev) \<longrightarrow>
          txSpeed = float64 (float64 (float64 (2 ^ 64 + real (unat tx) - real (unat (txBytes prev))) * 8)
                               / Seconds (Sub now (time prev)))
          \<and> 0 < txSpeed
          \<and> (now - time prev \<le> maxDuration \<longrightarrow>
                \<bar>txSpeed - (2 ^ 64 + real (unat tx) - real (unat (txBytes prev))) * 8
                             / (real_of_int (now - time prev) / 1000000000)\<bar>
                  \<le> (2 ^ 64 + real (unat tx) - real (unat (txBytes prev))) * 8
                        / (real_of_int (now - time prev) / 1000000000) / 2 ^ 50))"
proof -
  from processLine_elapsed [OF assms(1-7), of ci] obtain st' where
    ret: "processLine e now line (ci, st) = Inr (ci(ifaceName \<mapsto> True), st')"
    and rxg: "networkSpeedBits st' (ifaceName, ''receive'') =
      Some (float64 (float64 (float64 (real (unat (rx - rxBytes prev))) * 8)
                       / Seconds (Sub now (time prev))))"
    and txg: "networkSpeedBits st' (ifaceName, ''transmit'') =
      Some (float64 (float64 (float64 (real (unat (tx - txBytes prev))) * 8)
                       / Seconds (Sub now (time prev))))"
    unfolding assms(8,9) by blast
  have d: "0 < now - time prev" using assms(7) by simp
  have secs: "0 < Seconds (Sub now (time prev))"
    using assms(7) by (simp only: Seconds_Sub_pos_iff)
  have sub: "now - time prev \<le> maxDuration \<Longrightarrow> Sub now (time prev) = now - time prev"
    using d by (intro Sub_exact) (simp_all add: minDuration_def)
  have wrap: "float64 (float64 (float64 (real (unat (c - p))) * 8) / Seconds (Sub now (time prev)))
        = float64 (float64 (float64 (2 ^ 64 + real (unat c) - real (unat p)) * 8)
                     / Seconds (Sub now (time prev)))
      \<and> 0 < float64 (float64 (float64 (2 ^ 64 + real (unat c) - real (unat p)) * 8)
                     / Seconds (Sub now (time prev)))
      \<and> (now - time prev \<le> maxDuration \<longrightarrow>
           \<bar>float64 (float64 (float64 (2 ^ 64 + real (unat c) - real (unat p)) * 8)
                      / Seconds (Sub now (time prev)))
              - (2 ^ 64 + real (unat c) - real (unat p)) * 8
                  / (real_of_int (now - time prev) / 1000000000)\<bar>
             \<le> (2 ^ 64 + real (unat c) - real (unat p)) * 8
                   / (real_of_int (now - time prev) / 1000000000) / 2 ^ 50)"
    if "unat c < unat p" for c p :: "64 word"
  proof -
    define D where "D = 2 ^ 64 + real (unat c) - real (unat p)"
    have eq: "real (unat (c - p)) = D"
      unfolding D_def using that by (rule unat_sub_wrap)
    have "0 < D * 8" unfolding D_def by (rule wrapped_difference_pos)
    then have D: "0 < D" by simp
    have "0 < float64 D * 8" using float64_pos [OF D] by simp
    then have "0 < float64 (float64 D * 8)" by (rule float64_pos)
    then have "0 < float64 (float64 D * 8) / Seconds (Sub now (time prev))"
      using secs by (rule divide_pos_pos)
    then have pos: "0 < float64 (float64 (float64 D * 8) / Seconds (Sub now (time prev)))"
      by (rule float64_pos)
    have "0 \<le> D" using D by simp
    from rate_between [OF this d]
    have "now - time prev \<le> maxDuration \<longrightarrow>
        \<bar>float64 (float64 (float64 D * 8) / Seconds (Sub now (time prev)))
           - D * 8 / (real_of_int (now - time prev) / 1000000000)\<bar>
        \<le> D * 8 / (real_of_int (now - time prev) / 1000000000) / 2 ^ 50"
      by (auto simp only: sub)
    with pos show ?thesis
      unfolding eq unfolding D_def by blast
  qed
  have rxw: "unat rx < unat (rxBytes prev) \<longrightarrow>
      float64 (float64 (float64 (real (unat (rx - rxBytes prev))) * 8) / Seconds (Sub now (time prev)))
        = float64 (float64 (float64 (2 ^ 64 + real (unat rx) - real (unat (rxBytes prev))) * 8)
                     / Seconds (Sub now (time prev)))
      \<and> 0 < float64 (float64 (float64 (real (unat (rx - rxBytes prev))) * 8)
                     / Seconds (Sub now (time prev)))
      \<and> (now - time prev \<le> maxDuration \<longrightarrow>
           \<bar>float64 (float64 (float64 (real (unat (rx - rxBytes prev))) * 8)
                      / Seconds (Sub now (time prev)))
              - (2 ^ 64 + real (unat rx) - real (unat (rxBytes prev))) * 8
                  / (real_of_int (now - time prev) / 1000000000)\<bar>
             \<le> (2 ^ 64 + real (unat rx) - real (unat (rxBytes prev))) * 8
                   / (real_of_int (now - time prev) / 1000000000) / 2 ^ 50)"
  proof
    assume a: "unat rx < unat (rxBytes prev)"
    note w = wrap [OF a]
    show "float64 (float64 (float64 (real (unat (rx - rxBytes prev))) * 8) / Seconds (Sub now (time prev)))
        = float64 (float64 (float64 (2 ^ 64 + real (unat rx) - real (unat (rxBytes prev))) * 8)
                     / Seconds (Sub now (time prev)))
      \<and> 0 < float64 (float64 (float64 (real (unat (rx - rxBytes prev))) * 8)
                     / Seconds (Sub now (time prev)))
      \<and> (now - time prev \<le> maxDuration \<longrightarrow>
           \<bar>float64 (float64 (float64 (real (unat (rx - rxBytes prev))) * 8)
                      / Seconds (Sub now (time prev)))
              - (2 ^ 64 + real (unat rx) - real (unat (rxBytes prev))) * 8
                  / (real_of_int (now - time prev) / 1000000000)\<bar>
             \<le> (2 ^ 64 + real (unat rx) - real (unat (rxBytes prev))) * 8
                   / (real_of_int (now - time prev) / 1000000000) / 2 ^ 50)"
      unfolding w [THEN conjunct1] using w by blast
  qed
  have txw: "unat tx < unat (txBytes prev) \<longrightarrow>
      float64 (float64 (float64 (real (unat (tx - txBytes prev))) * 8) / Seconds (Sub now (time prev)))
        = float64 (float64 (float64 (2 ^ 64 + real (unat tx) - real (unat (txBytes prev))) * 8)
                     / Seconds (Sub now (time prev)))
      \<and> 0 < float64 (float64 (float64 (real (unat (tx - txBytes prev))) * 8)
                     / Seconds (Sub now (time prev)))
      \<and> (now - time prev \<le> maxDuration \<longrightarrow>
           \<bar>float64 (float64 (float64 (real (unat (tx - txBytes prev))) * 8)
                      / Seconds (Sub now (time prev)))
              - (2 ^ 64 + real (unat tx) - real (unat (txBytes prev))) * 8
                  / (real_of_int (now - time prev) / 1000000000)\<bar>
             \<le> (2 ^ 64 + real (unat tx) - real (unat (txBytes prev))) * 8
                   / (real_of_int (now - time prev) / 1000000000) / 2 ^ 50)"
  proof
    assume a: "unat tx < unat (txBytes prev)"
    note w = wrap [OF a]
    show "float64 (float64 (float64 (real (unat (tx - txBytes prev))) * 8) / Seconds (Sub now (time prev)))
        = float64 (float64 (float64 (2 ^ 64 + real (unat tx) - real (unat (txBytes prev))) * 8)
                     / Seconds (Sub now (time prev)))
      \<and> 0 < float64 (float64 (float64 (real (unat (tx - txBytes prev))) * 8)
                     / Seconds (Sub now (time prev)))
      \<and> (now - time prev \<le> maxDuration \<longrightarrow>
           \<bar>float64 (float64 (float64 (real (unat (tx - txBytes prev))) * 8)
                      / Seconds (Sub now (time prev)))
              - (2 ^ 64 + real (unat tx) - real (unat (txBytes prev))) * 8
                  / (real_of_int (now - time prev) / 1000000000)\<bar>
             \<le> (2 ^ 64 + real (unat tx) - real (unat (txBytes prev))) * 8
                   / (real_of_int (now - time prev) / 1000000000) / 2 ^ 50)"
      unfolding w [THEN conjunct1] using w by blast
  qed
  show ?thesis
    using ret rxg txg rxw txw by blast
qed

text \<open>The counters of \<open>eth0\<close> fall from 2000 and 1500 bytes to 1000 and 500 bytes within
  one second: both rates are \<open>2^67\<close>, the \<open>float64\<close> nearest to \<open>2^64 - 1000\<close> being
  \<open>2^64\<close>.\<close>

theorem wrapped_rate_witness:
  "\<exists>st'. processLine hostUp 1000000000 lineA (Map.empty, afterB) = Inr ([''eth0'' \<mapsto> True], st')
     \<and> networkSpeedBits st' (''eth0'', ''receive'') = Some 147573952589676412928
     \<and> networkSpeedBits st' (''eth0'', ''transmit'') = Some 147573952589676412928"
  using wrapped_rate [OF length_lineA name_lineA not_skipped_hostUp ValidString_examples(1)
      valid_hostUp stats_afterB time_readingB refl refl, of Map.empty]
  by (auto simp: Fields_lineA scan_simps readingB_def Seconds_one float64_simps float64_wrapped)

text \<open>C2 as the claim states it fails on that input: the receive counter falls from 2000
  to 1000 in one second, the claim's rate is \<open>(1000 - 2000) * 8 / 1 = -8000\<close>, and the
  program publishes \<open>2^67\<close>.\<close>

theorem negative_rate_counterexample:
  "stats afterB ''eth0'' = Some (readingB 0)
   \<and> unat (Sscanf_d (Fields lineA ! 1)) < unat (rxBytes (readingB 0))
   \<and> time (readingB 0) < 1000000000
   \<and> processLine hostUp 1000000000 lineA (Map.empty, afterB) = Inr ([''eth0'' \<mapsto> True], afterWrap)
   \<and> networkSpeedBits afterWrap (''eth0'', ''receive'') = Some 147573952589676412928
   \<and> (real (unat (Sscanf_d (Fields lineA ! 1))) - real (unat (rxBytes (readingB 0)))) * 8
        / (real_of_int (1000000000 - time (readingB 0)) / 1000000000) = - 8000
   \<and> networkSpeedBits afterWrap (''eth0'', ''receive'') \<noteq> Some (- 8000)"
proof -
  have 1: "processLine hostUp 1000000000 lineA (Map.empty, afterB) =
      map_sum id (Pair [''eth0'' \<mapsto> True]) (sample hostUp 1000000000 (Fields lineA) ''eth0'' afterB)"
    using processLine_sampled [OF length_lineA, of hostUp 1000000000 "(Map.empty, afterB)"]
      not_skipped_hostUp name_lineA by simp
  have 2: "sample hostUp 1000000000 (Fields lineA) ''eth0'' afterB = Inr afterWrap"
    unfolding sample_elapsed [OF ValidString_examples(1) valid_hostUp stats_afterB time_readingB]
    by (simp add: readCounters_lineA description_hostUp readingA_def readingB_def Seconds_one
        afterB_def afterWrap_def initialState_def noGauges_def float64_simps float64_wrapped)
  have ret: "processLine hostUp 1000000000 lineA (Map.empty, afterB)
      = Inr ([''eth0'' \<mapsto> True], afterWrap)"
    unfolding 1 2 by simp
  have "stats afterB ''eth0'' = Some (readingB 0)
   \<and> unat (Sscanf_d (Fields lineA ! 1)) < unat (rxBytes (readingB 0))
   \<and> time (readingB 0) < 1000000000
   \<and> networkSpeedBits afterWrap (''eth0'', ''receive'') = Some 147573952589676412928
   \<and> (real (unat (Sscanf_d (Fields lineA ! 1))) - real (unat (rxBytes (readingB 0)))) * 8
        / (real_of_int (1000000000 - time (readingB 0)) / 1000000000) = - 8000
   \<and> networkSpeedBits afterWrap (''eth0'', ''receive'') \<noteq> Some (- 8000)"
    by (simp add: stats_afterB Fields_lineA scan_simps readingB_def afterWrap_def)
  with ret show ?thesis by blast
qed

text \<open>
  C3. Let the table be walked in any order, every key once, and let the \<open>lastSeen\<close> of
  its entries be pairwise distinct. When the table holds at most \<open>maxInterfaces\<close> (1000)
  entries, capacity enforcement leaves it as it is. When it holds \<open>maxInterfaces + K\<close>
  entries with \<open>K > 0\<close>, capacity enforcement leaves exactly \<open>maxInterfaces\<close> entries,
  each as it was, removes exactly \<open>K\<close>, and every removed entry was last seen before
  every entry that is left: the removed ones are the \<open>K\<close> oldest, the others the newest.
\<close>

theorem enforceCapacity_evicts_oldest:
  assumes "rangeOf m order"
    and "inj_on (\<lambda>k. lastSeen (index m k)) (dom m)"
    and "m' = enforceCapacity order m"
  shows "(card (dom m) \<le> maxInterfaces \<longrightarrow> m' = m)
       \<and> (0 < K \<and> card (dom m) = maxInterfaces + K \<longrightarrow>
            card (dom m') = maxInterfaces
            \<and> card (dom m - dom m') = K
            \<and> dom m' \<subseteq> dom m
            \<and> (\<forall>k\<in>dom m'. m' k = m k)
            \<and> (\<forall>a\<in>dom m - dom m'. \<forall>b\<in>dom m'.
                  lastSeen (index m a) < lastSeen (index m b)))"
proof (intro conjI impI)
  assume "card (dom m) \<le> maxInterfaces"
  then show "m' = m" by (simp add: assms(3) enforceCapacity_under)
next
  assume K: "0 < K \<and> card (dom m) = maxInterfaces + K"
  then have over: "maxInterfaces < card (dom m)" by simp
  have len: "length order = maxInterfaces + K"
    using K rangeOf_card [OF assms(1)] by simp
  have fin: "finite (dom m)"
    using assms(1) by (metis rangeOf_def List.finite_set)
  have dom': "dom m' = dom m - set (oldest order m)"
    by (simp add: assms(3) dom_enforceCapacity_over [OF over])
  have sub: "set (oldest order m) \<subseteq> dom m"
    by (rule oldest_subset [OF assms(1)])
  have cardE: "card (set (oldest order m)) = K"
    using oldest_card [OF assms(1)] len by simp
  have evicted: "dom m - dom m' = set (oldest order m)"
    using sub dom' by auto
  show "card (dom m') = maxInterfaces"
    using card_Diff_subset [OF _ sub] K cardE dom' by simp
  show "card (dom m - dom m') = K"
    by (simp only: evicted cardE)
  show "dom m' \<subseteq> dom m"
    using dom' by auto
  show "\<forall>k\<in>dom m'. m' k = m k"
    using dom' by (auto simp: assms(3) enforceCapacity_over [OF over])
  show "\<forall>a\<in>dom m - dom m'. \<forall>b\<in>dom m'. lastSeen (index m a) < lastSeen (index m b)"
  proof (intro ballI)
    fix a b
    assume a: "a \<in> dom m - dom m'" and b: "b \<in> dom m'"
    from a have a': "a \<in> set (oldest order m)" by (simp only: evicted)
    from b have b': "b \<in> dom m - set (oldest order m)" by (simp only: dom')
    have "lastSeen (index m a) \<le> lastSeen (index m b)"
      by (rule oldest_le_kept [OF assms(1) a' b'])
    moreover have "a \<noteq> b" using a' b' by auto
    then have "lastSeen (index m a) \<noteq> lastSeen (index m b)"
      using assms(2) a b' by (auto dest: inj_onD)
    ultimately show "lastSeen (index m a) < lastSeen (index m b)" by simp
  qed
qed

text \<open>1001 interfaces last seen at the times 0 to 1000, walked from the newest to the
  oldest: one is removed, the oldest, \<open>veth0000\<close>.\<close>

theorem enforceCapacity_evicts_oldest_witness:
  "card (dom agedTable) = maxInterfaces + 1
   \<and> card (dom (enforceCapacity (walkDown (Suc maxInterfaces)) agedTable)) = maxInterfaces
   \<and> card (dom agedTable - dom (enforceCapacity (walkDown (Suc maxInterfaces)) agedTable)) = 1
   \<and> enforceCapacity (walkDown (Suc maxInterfaces)) agedTable ''veth0000'' = None"
proof -
  let ?m' = "enforceCapacity (walkDown (Suc maxInterfaces)) agedTable"
  have r: "rangeOf agedTable (walkDown (Suc maxInterfaces))"
    unfolding agedTable_def by (rule rangeOf_walkDown [OF crowded_small])
  have c: "card (dom agedTable) = maxInterfaces + 1"
    by (simp add: agedTable_def card_crowd [OF crowded_small])
  note th = enforceCapacity_evicts_oldest [OF r inj_agedTable refl, of 1]
  have k: "card (dom ?m') = maxInterfaces" "card (dom agedTable - dom ?m') = 1"
    and older: "\<forall>a\<in>dom agedTable - dom ?m'. \<forall>b\<in>dom ?m'.
        lastSeen (index agedTable a) < lastSeen (index agedTable b)"
    using th c by simp_all
  have "ifname 0 \<notin> dom ?m'"
  proof
    assume b: "ifname 0 \<in> dom ?m'"
    from k(2) obtain a where a: "a \<in> dom agedTable - dom ?m'"
      by (metis card_1_singletonE singletonI)
    then have "a \<in> ifname ` {0 ..< Suc maxInterfaces}"
      by (simp add: agedTable_def dom_crowd)
    then obtain j where j: "j < Suc maxInterfaces" "a = ifname j"
      by auto
    have "lastSeen (index agedTable a) < lastSeen (index agedTable (ifname 0))"
      using older a b by blast
    then show False
      using j by (simp add: agedTable_def lastSeen_crowd [OF crowded_small])
  qed
  then have "?m' ''veth0000'' = None"
    by (simp add: ifname_first domIff)
  with c k show ?thesis by simp
qed

text \<open>
  C4. When the stored sample of an interface carries the time of the current reading, or
  a later one (the elapsed time is not strictly positive), the line publishes no rate and
  no error, drop or packet gauge: the four gauge families are what they were. The branch
  that divides by the elapsed time is not taken: the new state \<open>st'\<close> is the old one
  with the interface-info gauge set and the current reading stored, and nothing else. The
  reading stored is the eight counters as \<open>Sscanf\<close> read them from the fields 1 to 4
  and 9 to 12 of the line, with the time of the reading as \<open>time\<close> and \<open>lastSeen\<close>.
  As for C1, the line is one whose counters the loop gets to read.
\<close>

theorem no_elapsed_time_no_rate:
  assumes "17 \<le> length (Fields line)"
    and "ifaceName = TrimSuffix (Fields line ! 0) '':''"
    and "\<not> skipped e ifaceName"
    and "ValidString ifaceName" and "ValidString (lookupDescription e ifaceName)"
    and "stats st ifaceName = Some prev"
    and "now \<le> time prev"
    and "st' = st\<lparr>networkInterfaceInfo :=
                    (networkInterfaceInfo st)((ifaceName, lookupDescription e ifaceName) \<mapsto> 1),
                  stats := (stats st)(ifaceName \<mapsto>
                    \<lparr>rxBytes = Sscanf_d (Fields line ! 1), txBytes = Sscanf_d (Fields line ! 9),
                     rxPackets = Sscanf_d (Fields line ! 2), txPackets = Sscanf_d (Fields line ! 10),
                     rxErrors = Sscanf_d (Fields line ! 3), txErrors = Sscanf_d (Fields line ! 11),
                     rxDrops = Sscanf_d (Fields line ! 4), txDrops = Sscanf_d (Fields line ! 12),
                     time = now, lastSeen = now\<rparr>)\<rparr>"
  shows "processLine e now line (ci, st) = Inr (ci(ifaceName \<mapsto> True), st')
       \<and> networkSpeedBits st' = networkSpeedBits st
       \<and> networkErrors st' = networkErrors st
       \<and> networkDrops st' = networkDrops st
       \<and> networkPackets st' = networkPackets st
       \<and> stats st' ifaceName =
           Some \<lparr>rxBytes = Sscanf_d (Fields line ! 1), txBytes = Sscanf_d (Fields line ! 9),
                 rxPackets = Sscanf_d (Fields line ! 2), txPackets = Sscanf_d (Fields line ! 10),
                 rxErrors = Sscanf_d (Fields line ! 3), txErrors = Sscanf_d (Fields line ! 11),
                 rxDrops = Sscanf_d (Fields line ! 4), txDrops = Sscanf_d (Fields line ! 12),
                 time = now, lastSeen = now\<rparr>"
  unfolding processLine_no_elapsed [OF assms(1-7)] assms(8)
  by (simp add: readCounters_def)

text \<open>The sample of \<open>eth0\<close> was taken at time 0 and the next line is read at time 0.\<close>

theorem no_elapsed_time_no_rate_witness:
  "processLine hostUp 0 lineB (Map.empty, afterA) =
     Inr ([''eth0'' \<mapsto> True],
          \<lparr>stats = [''eth0'' \<mapsto>
                     \<lparr>rxBytes = 2000, txBytes = 1500, rxPackets = 20, txPackets = 15,
                      rxErrors = 1, txErrors = 3, rxDrops = 2, txDrops = 4,
                      time = 0, lastSeen = 0\<rparr>],
           networkSpeedBits = noGauges, networkErrors = noGauges, networkDrops = noGauges,
           networkPackets = noGauges, networkInterfaceInfo = [(''eth0'', ''uplink'') \<mapsto> 1]\<rparr>)"
proof -
  have 7: "0 \<le> time (readingA 0)" by (simp add: readingA_def)
  have "processLine hostUp 0 lineB (Map.empty, afterA) =
      Inr ([''eth0'' \<mapsto> True],
           afterA\<lparr>networkInterfaceInfo :=
                    (networkInterfaceInfo afterA)((''eth0'', lookupDescription hostUp ''eth0'') \<mapsto> 1),
                  stats := (stats afterA)(''eth0'' \<mapsto>
                    \<lparr>rxBytes = Sscanf_d (Fields lineB ! 1), txBytes = Sscanf_d (Fields lineB ! 9),
                     rxPackets = Sscanf_d (Fields lineB ! 2), txPackets = Sscanf_d (Fields lineB ! 10),
                     rxErrors = Sscanf_d (Fields lineB ! 3), txErrors = Sscanf_d (Fields lineB ! 11),
                     rxDrops = Sscanf_d (Fields lineB ! 4), txDrops = Sscanf_d (Fields lineB ! 12),
                     time = 0, lastSeen = 0\<rparr>)\<rparr>)"
    using no_elapsed_time_no_rate [OF length_lineB name_lineB not_skipped_hostUp
        ValidString_examples(1) valid_hostUp stats_afterA 7 refl, of Map.empty]
    by blast
  also have "afterA\<lparr>networkInterfaceInfo :=
                    (networkInterfaceInfo afterA)((''eth0'', lookupDescription hostUp ''eth0'') \<mapsto> 1),
                  stats := (stats afterA)(''eth0'' \<mapsto>
                    \<lparr>rxBytes = Sscanf_d (Fields lineB ! 1), txBytes = Sscanf_d (Fields lineB ! 9),
                     rxPackets = Sscanf_d (Fields lineB ! 2), txPackets = Sscanf_d (Fields lineB ! 10),
                     rxErrors = Sscanf_d (Fields lineB ! 3), txErrors = Sscanf_d (Fields lineB ! 11),
                     rxDrops = Sscanf_d (Fields lineB ! 4), txDrops = Sscanf_d (Fields lineB ! 12),
                     time = 0, lastSeen = 0\<rparr>)\<rparr>
      = \<lparr>stats = [''eth0'' \<mapsto>
                     \<lparr>rxBytes = 2000, txBytes = 1500, rxPackets = 20, txPackets = 15,
                      rxErrors = 1, txErrors = 3, rxDrops = 2, txDrops = 4,
                      time = 0, lastSeen = 0\<rparr>],
           networkSpeedBits = noGauges, networkErrors = noGauges, networkDrops = noGauges,
           networkPackets = noGauges, networkInterfaceInfo = [(''eth0'', ''uplink'') \<mapsto> 1]\<rparr>"
    by (simp add: afterA_def initialState_def noGauges_def description_hostUp Fields_lineB
        scan_simps)
  finally show ?thesis .
qed

text \<open>
  C5, as the code has it. The claim reads: every interface named on a line with enough
  fields has the \<open>lastSeen\<close> of its stored sample set to the time of the scan, also when
  the read is skipped. The program writes \<open>lastSeen\<close> in one place, the update of the
  table at the end of the loop body, which a skipped line does not reach. So: a line that
  is sampled, with an interface name and a description that are valid UTF-8, leaves a
  stored sample whose \<open>lastSeen\<close> is the time of the reading; a line that is skipped
  (lookup failed, loopback, or down) leaves the table and the gauges as they were, and only
  enters the name into \<open>currentInterfaces\<close>; and a line that is sampled with a name or a
  description that is not valid UTF-8 panics before the table is written.
\<close>

theorem lastSeen_set_when_sampled:
  assumes "17 \<le> length (Fields line)"
    and "ifaceName = TrimSuffix (Fields line ! 0) '':''"
  shows "(\<not> skipped e ifaceName \<and> ValidString ifaceName
            \<and> ValidString (lookupDescription e ifaceName) \<longrightarrow>
            (\<exists>st'. processLine e now line (ci, st) = Inr (ci(ifaceName \<mapsto> True), st')
                  \<and> map_option lastSeen (stats st' ifaceName) = Some now))
       \<and> (skipped e ifaceName \<longrightarrow>
            processLine e now line (ci, st) = Inr (ci(ifaceName \<mapsto> True), st))
       \<and> (\<not> skipped e ifaceName
            \<and> \<not> (ValidString ifaceName \<and> ValidString (lookupDescription e ifaceName)) \<longrightarrow>
            processLine e now line (ci, st) = Inl LabelValueNotUTF8)"
proof (intro conjI impI)
  assume a: "\<not> skipped e ifaceName \<and> ValidString ifaceName
      \<and> ValidString (lookupDescription e ifaceName)"
  then obtain st' where st': "sample e now (Fields line) ifaceName st = Inr st'"
    using sample_returns by blast
  have "processLine e now line (ci, st) = Inr (ci(ifaceName \<mapsto> True), st')"
    using assms(1) a st' unfolding assms(2) by (simp add: processLine_sampled)
  moreover have "map_option lastSeen (stats st' ifaceName) = Some now"
    by (simp add: sample_returned(2) [OF st'] readCounters_def)
  ultimately show "\<exists>st'. processLine e now line (ci, st) = Inr (ci(ifaceName \<mapsto> True), st')
      \<and> map_option lastSeen (stats st' ifaceName) = Some now"
    by blast
next
  assume "skipped e ifaceName"
  then show "processLine e now line (ci, st) = Inr (ci(ifaceName \<mapsto> True), st)"
    using assms(1) unfolding assms(2) by (simp add: processLine_skipped)
next
  assume "\<not> skipped e ifaceName
      \<and> \<not> (ValidString ifaceName \<and> ValidString (lookupDescription e ifaceName))"
  then show "processLine e now line (ci, st) = Inl LabelValueNotUTF8"
    using processLine_invalid [OF assms(1,2)] by blast
qed

text \<open>The line of \<open>eth0\<close>, read one second after its sample was stored: on the host
  where it is up, on the host where it is down, and on the host where its alias is not
  UTF-8.\<close>

theorem lastSeen_set_when_sampled_witness:
  "(\<exists>st'. processLine hostUp 1000000000 lineB (Map.empty, afterA) = Inr ([''eth0'' \<mapsto> True], st')
         \<and> map_option lastSeen (stats st' ''eth0'') = Some 1000000000)
   \<and> processLine hostDown 1000000000 lineB (Map.empty, afterA) = Inr ([''eth0'' \<mapsto> True], afterA)
   \<and> processLine hostBadAlias 1000000000 lineB (Map.empty, afterA) = Inl LabelValueNotUTF8"
  using lastSeen_set_when_sampled [OF length_lineB name_lineB,
      of hostUp 1000000000 Map.empty afterA]
    lastSeen_set_when_sampled [OF length_lineB name_lineB,
      of hostDown 1000000000 Map.empty afterA]
    lastSeen_set_when_sampled [OF length_lineB name_lineB,
      of hostBadAlias 1000000000 Map.empty afterA]
    not_skipped_hostUp skipped_hostDown not_skipped_hostBadAlias
    ValidString_examples(1,3) valid_hostUp description_hostBadAlias
  by simp

text \<open>C5 as the claim states it fails when \<open>eth0\<close>, sampled at time 0, is down at the
  scan one second later: its line has 17 fields and its name is recorded, and the
  \<open>lastSeen\<close> of its stored sample is still 0.\<close>

theorem lastSeen_skipped_counterexample:
  "17 \<le> length (Fields lineB)
   \<and> TrimSuffix (Fields lineB ! 0) '':'' = ''eth0''
   \<and> skipped hostDown ''eth0''
   \<and> processLine hostDown 1000000000 lineB (Map.empty, afterA) = Inr ([''eth0'' \<mapsto> True], afterA)
   \<and> map_option lastSeen (stats afterA ''eth0'') = Some 0
   \<and> map_option lastSeen (stats afterA ''eth0'') \<noteq> Some 1000000000"
proof -
  have "processLine hostDown 1000000000 lineB (Map.empty, afterA) = Inr ([''eth0'' \<mapsto> True], afterA)"
    using processLine_skipped [OF length_lineB, of hostDown 1000000000 "(Map.empty, afterA)"]
      skipped_hostDown name_lineB by simp
  moreover have "map_option lastSeen (stats afterA ''eth0'') = Some 0"
    and "map_option lastSeen (stats afterA ''eth0'') \<noteq> Some 1000000000"
    by (simp_all add: stats_afterA readingA_def)
  ultimately show ?thesis
    using length_lineB name_lineB [symmetric] skipped_hostDown by blast
qed

text \<open>
  C6, as the code has it. The claim reads: two runs of capacity enforcement over tables
  with the same entries evict the same entries, also when some \<open>lastSeen\<close> are equal.
  The program sorts the keys, collected in the order of a walk of the map, by
  \<open>lastSeen\<close> alone, and Go fixes neither the order of the walk nor the order
  \<open>sort.Slice\<close> leaves between keys of equal \<open>lastSeen\<close>. So, for two walks of the same
  table: the two runs leave the same number of entries and evict entries with the same
  \<open>lastSeen\<close> values, and when the \<open>lastSeen\<close> are pairwise distinct they evict the same
  entries.
\<close>

theorem enforceCapacity_deterministic_without_ties:
  assumes "rangeOf m order1" and "rangeOf m order2"
  shows "(inj_on (\<lambda>k. lastSeen (index m k)) (dom m) \<longrightarrow>
            enforceCapacity order1 m = enforceCapacity order2 m)
       \<and> card (dom (enforceCapacity order1 m)) = card (dom (enforceCapacity order2 m))
       \<and> (\<lambda>k. lastSeen (index m k)) ` (dom m - dom (enforceCapacity order1 m))
           = (\<lambda>k. lastSeen (index m k)) ` (dom m - dom (enforceCapacity order2 m))"
proof (intro conjI impI)
  have perm: "mset order1 = mset order2"
    by (rule rangeOf_mset [OF assms])
  have len: "length order1 = length order2"
    using rangeOf_card [OF assms(1)] rangeOf_card [OF assms(2)] by simp
  show "card (dom (enforceCapacity order1 m)) = card (dom (enforceCapacity order2 m))"
    by (simp only: card_kept [OF assms(1)] card_kept [OF assms(2)])
  show "(\<lambda>k. lastSeen (index m k)) ` (dom m - dom (enforceCapacity order1 m))
      = (\<lambda>k. lastSeen (index m k)) ` (dom m - dom (enforceCapacity order2 m))"
  proof (cases "maxInterfaces < card (dom m)")
    case True
    have "map (\<lambda>k. lastSeen (index m k)) (oldest order1 m)
        = map (\<lambda>k. lastSeen (index m k)) (oldest order2 m)"
      by (simp only: seen_oldest len sort_map_perm [OF perm])
    then have "set (map (\<lambda>k. lastSeen (index m k)) (oldest order1 m))
        = set (map (\<lambda>k. lastSeen (index m k)) (oldest order2 m))"
      by (simp only:)
    then show ?thesis
      by (simp only: evicted_over [OF assms(1) True] evicted_over [OF assms(2) True] set_map)
  next
    case False
    then show ?thesis by (simp add: enforceCapacity_under)
  qed
  assume inj: "inj_on (\<lambda>k. lastSeen (index m k)) (dom m)"
  show "enforceCapacity order1 m = enforceCapacity order2 m"
  proof (cases "maxInterfaces < card (dom m)")
    case True
    have "inj_on (\<lambda>k. lastSeen (index m k)) (set order1)"
      using inj assms(1) by (simp add: rangeOf_def)
    with perm have "sort_key (\<lambda>k. lastSeen (index m k)) order1
        = sort_key (\<lambda>k. lastSeen (index m k)) order2"
      by (rule sort_key_eq_sort_key)
    then have "oldest order1 m = oldest order2 m"
      by (simp add: oldest_def len)
    then show ?thesis
      by (simp add: enforceCapacity_over [OF True])
  next
    case False
    then show ?thesis by (simp add: enforceCapacity_under)
  qed
qed

text \<open>The 1001 interfaces last seen at the times 0 to 1000, walked up and walked down.\<close>

theorem enforceCapacity_deterministic_without_ties_witness:
  "maxInterfaces < card (dom agedTable)
   \<and> enforceCapacity (walkUp (Suc maxInterfaces)) agedTable
       = enforceCapacity (walkDown (Suc maxInterfaces)) agedTable"
  using enforceCapacity_deterministic_without_ties [of agedTable "walkUp (Suc maxInterfaces)"
      "walkDown (Suc maxInterfaces)"]
    inj_agedTable over_crowd [of int]
    rangeOf_walkUp [OF crowded_small, of int] rangeOf_walkDown [OF crowded_small, of int]
  by (simp add: agedTable_def)

text \<open>C6 as the claim states it fails on 1001 interfaces all last seen at time 0: the walk
  from \<open>veth0000\<close> to \<open>veth1000\<close> evicts \<open>veth0000\<close>, the walk from \<open>veth1000\<close> to
  \<open>veth0000\<close> evicts \<open>veth1000\<close>. The comparison is false for every pair of these keys,
  so the sort has nothing but the positions in the slice to go by.\<close>

theorem enforceCapacity_tie_counterexample:
  "rangeOf tiedTable (walkUp (Suc maxInterfaces))
   \<and> rangeOf tiedTable (walkDown (Suc maxInterfaces))
   \<and> dom tiedTable - dom (enforceCapacity (walkUp (Suc maxInterfaces)) tiedTable) = {''veth0000''}
   \<and> dom tiedTable - dom (enforceCapacity (walkDown (Suc maxInterfaces)) tiedTable) = {''veth1000''}
   \<and> enforceCapacity (walkUp (Suc maxInterfaces)) tiedTable
       \<noteq> enforceCapacity (walkDown (Suc maxInterfaces)) tiedTable"
proof -
  have up: "rangeOf tiedTable (walkUp (Suc maxInterfaces))"
    unfolding tiedTable_def by (rule rangeOf_walkUp [OF crowded_small])
  have down: "rangeOf tiedTable (walkDown (Suc maxInterfaces))"
    unfolding tiedTable_def by (rule rangeOf_walkDown [OF crowded_small])
  have over: "maxInterfaces < card (dom tiedTable)"
    unfolding tiedTable_def by (rule over_crowd)
  have e1: "dom tiedTable - dom (enforceCapacity (walkUp (Suc maxInterfaces)) tiedTable) = {''veth0000''}"
    by (simp only: evicted_over [OF up over] oldest_tiedTable_up ifname_first list.set)
  have e2: "dom tiedTable - dom (enforceCapacity (walkDown (Suc maxInterfaces)) tiedTable) = {''veth1000''}"
    by (simp only: evicted_over [OF down over] oldest_tiedTable_down ifname_maxInterfaces list.set)
  have "enforceCapacity (walkUp (Suc maxInterfaces)) tiedTable
      \<noteq> enforceCapacity (walkDown (Suc maxInterfaces)) tiedTable"
  proof
    assume "enforceCapacity (walkUp (Suc maxInterfaces)) tiedTable
      = enforceCapacity (walkDown (Suc maxInterfaces)) tiedTable"
    with e1 e2 have "{''veth0000''} = {''veth1000''}" by simp
    then show False by simp
  qed
  with up down e1 e2 show ?thesis by simp
qed

text \<open>
  C7. When \<open>/proc/net/dev\<close> cannot be opened at the start of an iteration, the iteration
  returns (it does not panic) without touching the state: the table and every gauge are
  what they were. It logs the error, sleeps for \<open>time.Second\<close> (one second), and the loop
  goes on with its next iteration from the unchanged state.
\<close>

theorem unreadable_source_keeps_state:
  assumes "procNetDev e = Inl err"
  shows "iteration e st = Inr (st, [Log (''Error opening /proc/net/dev: '' @ err), Sleep Second])
       \<and> Second = 1000000000
       \<and> collectNetworkSpeeds (e # es) st =
           (fst (collectNetworkSpeeds es st),
            [Log (''Error opening /proc/net/dev: '' @ err), Sleep Second]
              @ snd (collectNetworkSpeeds es st))"
  using assms by (simp add: iteration_def Second_def Let_def)

text \<open>An iteration that cannot open the file, from a state that holds a sample.\<close>

theorem unreadable_source_keeps_state_witness:
  "iteration hostUnreadable afterA =
     Inr (afterA, [Log ''Error opening /proc/net/dev: open /proc/net/dev: no such file or directory'',
                   Sleep 1000000000])
   \<and> fst (collectNetworkSpeeds [hostUnreadable, hostUp] afterA)
       = fst (collectNetworkSpeeds [hostUp] afterA)"
proof -
  have 1: "procNetDev hostUnreadable = Inl ''open /proc/net/dev: no such file or directory''"
    by (simp add: hostUnreadable_def)
  show ?thesis
    using unreadable_source_keeps_state [OF 1, of afterA "[hostUp]"]
    by (simp add: Second_def Let_def)
qed

text \<open>
  C8. With the allow list \<open>allowedIPs\<close> (the comma-separated flag) and the request's
  \<open>remoteAddr\<close>: the request is allowed when the list is empty; otherwise it is allowed
  exactly when its source IP equals one of the entries of the list, each trimmed of white
  space. The source IP is the host of \<open>host:port\<close> or \<open>[host]:port\<close>, and the whole
  string when it has no colon. With the list \<open>10.0.0.1\<close>, a request from \<open>10.0.0.1\<close>
  is allowed with or without a port, a request from \<open>10.0.0.2\<close> is denied, and the empty
  list allows every address.
\<close>

theorem isIPAllowed_allowlist:
  "(isIPAllowed allowedIPs remoteAddr \<longleftrightarrow>
      allowedIPs = [] \<or> sourceIP remoteAddr \<in> set (map TrimSpace (Split allowedIPs (CHR '',''))))
   \<and> (CHR '':'' \<notin> set h \<and> CHR ''['' \<notin> set h \<and> CHR '']'' \<notin> set h
        \<and> CHR '':'' \<notin> set p \<and> CHR ''['' \<notin> set p \<and> CHR '']'' \<notin> set p
        \<longrightarrow> sourceIP (h @ '':'' @ p) = h)
   \<and> (CHR ''['' \<notin> set h \<and> CHR '']'' \<notin> set h
        \<and> CHR '':'' \<notin> set p \<and> CHR ''['' \<notin> set p \<and> CHR '']'' \<notin> set p
        \<longrightarrow> sourceIP (''['' @ h @ '']:'' @ p) = h)
   \<and> (CHR '':'' \<notin> set h \<longrightarrow> sourceIP h = h)
   \<and> isIPAllowed ''10.0.0.1'' ''10.0.0.1''
   \<and> isIPAllowed ''10.0.0.1'' ''10.0.0.1:51234''
   \<and> \<not> isIPAllowed ''10.0.0.1'' ''10.0.0.2''
   \<and> \<not> isIPAllowed ''10.0.0.1'' ''10.0.0.2:51234''
   \<and> isIPAllowed '''' remoteAddr"
proof (intro conjI impI)
  show "isIPAllowed allowedIPs remoteAddr \<longleftrightarrow>
      allowedIPs = [] \<or> sourceIP remoteAddr \<in> set (map TrimSpace (Split allowedIPs (CHR '','')))"
    by (rule isIPAllowed_iff)
next
  assume "CHR '':'' \<notin> set h \<and> CHR ''['' \<notin> set h \<and> CHR '']'' \<notin> set h
        \<and> CHR '':'' \<notin> set p \<and> CHR ''['' \<notin> set p \<and> CHR '']'' \<notin> set p"
  then show "sourceIP (h @ '':'' @ p) = h" by (intro sourceIP_host_port) simp_all
next
  assume "CHR ''['' \<notin> set h \<and> CHR '']'' \<notin> set h
        \<and> CHR '':'' \<notin> set p \<and> CHR ''['' \<notin> set p \<and> CHR '']'' \<notin> set p"
  then show "sourceIP (''['' @ h @ '']:'' @ p) = h" by (intro sourceIP_bracketed) simp_all
next
  assume "CHR '':'' \<notin> set h"
  then show "sourceIP h = h" by (rule sourceIP_no_port)
qed (simp_all add: isIPAllowed_iff sourceIP_examples Split_single TrimSpace_examples)

text \<open>A list of two addresses, the second after a space; and a list whose one address is
  followed by a no-break space (\<open>U+00A0\<close>, encoded \<open>C2 A0\<close>), which is trimmed as
  well.\<close>

theorem isIPAllowed_allowlist_witness:
  "isIPAllowed ''10.0.0.1, 10.0.0.3'' ''10.0.0.3:443''
   \<and> sourceIP ''10.0.0.3:443'' = ''10.0.0.3''
   \<and> sourceIP ''[fe80::1]:443'' = ''fe80::1''
   \<and> sourceIP ''10.0.0.3'' = ''10.0.0.3''
   \<and> \<not> isIPAllowed ''10.0.0.1, 10.0.0.3'' ''10.0.0.2:443''
   \<and> isIPAllowed (''10.0.0.1'' @ [CHR 0xC2, CHR 0xA0]) ''10.0.0.1:80''"
proof -
  have sp: "Split ''10.0.0.1, 10.0.0.3'' (CHR '','') = [''10.0.0.1'', '' 10.0.0.3'']" by simp
  have sp2: "Split (''10.0.0.1'' @ [CHR 0xC2, CHR 0xA0]) (CHR '','')
      = [''10.0.0.1'' @ [CHR 0xC2, CHR 0xA0]]" by simp
  have nbsp: "set (map TrimSpace [''10.0.0.1'' @ [CHR 0xC2, CHR 0xA0]]) = {''10.0.0.1''}"
    using TrimSpace_examples(3) by simp
  have pair: "set (map TrimSpace [''10.0.0.1'', '' 10.0.0.3'']) = {''10.0.0.1'', ''10.0.0.3''}"
    using TrimSpace_examples(1,2) by simp
  have a: "isIPAllowed ''10.0.0.1, 10.0.0.3'' ''10.0.0.3:443''
      \<and> sourceIP ''10.0.0.3:443'' = ''10.0.0.3''
      \<and> sourceIP ''10.0.0.3'' = ''10.0.0.3''"
    using isIPAllowed_allowlist [of "''10.0.0.1, 10.0.0.3''" "''10.0.0.3:443''" "''10.0.0.3''" "''443''"]
    unfolding sp pair by simp
  have b: "\<not> isIPAllowed ''10.0.0.1, 10.0.0.3'' ''10.0.0.2:443''"
    using isIPAllowed_allowlist [of "''10.0.0.1, 10.0.0.3''" "''10.0.0.2:443''" "''10.0.0.2''" "''443''"]
    unfolding sp pair by simp
  have c: "sourceIP ''[fe80::1]:443'' = ''fe80::1''"
    using isIPAllowed_allowlist [of "''''" "''''" "''fe80::1''" "''443''"] by simp
  have d: "isIPAllowed (''10.0.0.1'' @ [CHR 0xC2, CHR 0xA0]) ''10.0.0.1:80''"
    using isIPAllowed_allowlist [of "''10.0.0.1'' @ [CHR 0xC2, CHR 0xA0]" "''10.0.0.1:80''"
        "''10.0.0.1''" "''80''"]
    unfolding sp2 nbsp by simp
  from a b c d show ?thesis by blast
qed

text \<open>
  C9. On a line with at least 17 fields whose counters the loop gets to read (as for C1),
  a counter field that \<open>Sscanf\<close> cannot read as a decimal number gives the value 0: the
  line is not skipped, the reading stored in the table is the eight counters as \<open>Sscanf\<close>
  read them, with that 0, and the next reading of the interface (a second line, handled
  at a later time) computes its rate against that 0.
\<close>

theorem unparsable_counter_is_zero:
  assumes "17 \<le> length (Fields line)"
    and "ifaceName = TrimSuffix (Fields line ! 0) '':''"
    and "\<not> skipped e ifaceName"
    and "ValidString ifaceName" and "ValidString (lookupDescription e ifaceName)"
    and "17 \<le> length (Fields line2)"
    and "ifaceName = TrimSuffix (Fields line2 ! 0) '':''"
    and "\<not> skipped e2 ifaceName"
    and "ValidString (lookupDescription e2 ifaceName)"
    and "now < now2"
  shows "\<exists>st' st''.
         processLine e now line (ci, st) = Inr (ci(ifaceName \<mapsto> True), st')
       \<and> stats st' ifaceName =
           Some \<lparr>rxBytes = Sscanf_d (Fields line ! 1), txBytes = Sscanf_d (Fields line ! 9),
                 rxPackets = Sscanf_d (Fields line ! 2), txPackets = Sscanf_d (Fields line ! 10),
                 rxErrors = Sscanf_d (Fields line ! 3), txErrors = Sscanf_d (Fields line ! 11),
                 rxDrops = Sscanf_d (Fields line ! 4), txDrops = Sscanf_d (Fields line ! 12),
                 time = now, lastSeen = now\<rparr>
       \<and> (scanUint (Fields line ! 1) = None \<longrightarrow> Sscanf_d (Fields line ! 1) = 0)
       \<and> (scanUint (Fields line ! 2) = None \<longrightarrow> Sscanf_d (Fields line ! 2) = 0)
       \<and> (scanUint (Fields line ! 3) = None \<longrightarrow> Sscanf_d (Fields line ! 3) = 0)
       \<and> (scanUint (Fields line ! 4) = None \<longrightarrow> Sscanf_d (Fields line ! 4) = 0)
       \<and> (scanUint (Fields line ! 9) = None \<longrightarrow> Sscanf_d (Fields line ! 9) = 0)
       \<and> (scanUint (Fields line ! 10) = None \<longrightarrow> Sscanf_d (Fields line ! 10) = 0)
       \<and> (scanUint (Fields line ! 11) = None \<longrightarrow> Sscanf_d (Fields line ! 11) = 0)
       \<and> (scanUint (Fields line ! 12) = None \<longrightarrow> Sscanf_d (Fields line ! 12) = 0)
       \<and> processLine e2 now2 line2 (ci2, st') = Inr (ci2(ifaceName \<mapsto> True), st'')
       \<and> (scanUint (Fields line ! 1) = None \<longrightarrow>
            networkSpeedBits st'' (ifaceName, ''receive'') =
              Some (float64 (float64 (float64 (real (unat (Sscanf_d (Fields line2 ! 1) - 0))) * 8)
                               / Seconds (Sub now2 now))))
       \<and> (scanUint (Fields line ! 9) = None \<longrightarrow>
            networkSpeedBits st'' (ifaceName, ''transmit'') =
              Some (float64 (float64 (float64 (real (unat (Sscanf_d (Fields line2 ! 9) - 0))) * 8)
                               / Seconds (Sub now2 now))))"
proof -
  obtain st' where s: "sample e now (Fields line) ifaceName st = Inr st'"
    using sample_returns [OF assms(4,5)] by blast
  have ret: "processLine e now line (ci, st) = Inr (ci(ifaceName \<mapsto> True), st')"
    using assms(1,3) s unfolding assms(2) by (simp add: processLine_sampled)
  have stored: "stats st' ifaceName = Some (readCounters (Fields line) now)"
    by (simp add: sample_returned(2) [OF s])
  have later: "time (readCounters (Fields line) now) < now2"
    using assms(10) by (simp add: readCounters_def)
  from processLine_elapsed [OF assms(6,7,8,4,9) stored later, of ci2] obtain st'' where
    ret2: "processLine e2 now2 line2 (ci2, st') = Inr (ci2(ifaceName \<mapsto> True), st'')"
    and rxg: "networkSpeedBits st'' (ifaceName, ''receive'') =
      Some (float64 (float64 (float64 (real (unat (Sscanf_d (Fields line2 ! 1)
                                                     - rxBytes (readCounters (Fields line) now)))) * 8)
                       / Seconds (Sub now2 (time (readCounters (Fields line) now)))))"
    and txg: "networkSpeedBits st'' (ifaceName, ''transmit'') =
      Some (float64 (float64 (float64 (real (unat (Sscanf_d (Fields line2 ! 9)
                                                     - txBytes (readCounters (Fields line) now)))) * 8)
                       / Seconds (Sub now2 (time (readCounters (Fields line) now)))))"
    by blast
  have rx0: "scanUint (Fields line ! 1) = None \<longrightarrow>
      networkSpeedBits st'' (ifaceName, ''receive'') =
        Some (float64 (float64 (float64 (real (unat (Sscanf_d (Fields line2 ! 1) - 0))) * 8)
                         / Seconds (Sub now2 now)))"
  proof
    assume n: "scanUint (Fields line ! 1) = None"
    show "networkSpeedBits st'' (ifaceName, ''receive'') =
        Some (float64 (float64 (float64 (real (unat (Sscanf_d (Fields line2 ! 1) - 0))) * 8)
                         / Seconds (Sub now2 now)))"
      unfolding rxg by (simp only: readCounters_def ifaceStats.simps Sscanf_d_error [OF n])
  qed
  have tx0: "scanUint (Fields line ! 9) = None \<longrightarrow>
      networkSpeedBits st'' (ifaceName, ''transmit'') =
        Some (float64 (float64 (float64 (real (unat (Sscanf_d (Fields line2 ! 9) - 0))) * 8)
                         / Seconds (Sub now2 now)))"
  proof
    assume n: "scanUint (Fields line ! 9) = None"
    show "networkSpeedBits st'' (ifaceName, ''transmit'') =
        Some (float64 (float64 (float64 (real (unat (Sscanf_d (Fields line2 ! 9) - 0))) * 8)
                         / Seconds (Sub now2 now)))"
      unfolding txg by (simp only: readCounters_def ifaceStats.simps Sscanf_d_error [OF n])
  qed
  have stored': "stats st' ifaceName =
      Some \<lparr>rxBytes = Sscanf_d (Fields line ! 1), txBytes = Sscanf_d (Fields line ! 9),
            rxPackets = Sscanf_d (Fields line ! 2), txPackets = Sscanf_d (Fields line ! 10),
            rxErrors = Sscanf_d (Fields line ! 3), txErrors = Sscanf_d (Fields line ! 11),
            rxDrops = Sscanf_d (Fields line ! 4), txDrops = Sscanf_d (Fields line ! 12),
            time = now, lastSeen = now\<rparr>"
    using stored by (simp only: readCounters_def)
  have zero: "scanUint s = None \<longrightarrow> Sscanf_d s = 0" for s
    by (simp add: Sscanf_d_error)
  show ?thesis
    apply (rule exI [of _ st'])
    apply (rule exI [of _ st''])
    apply (intro conjI ret stored' ret2 rx0 tx0 zero)
    done
qed

text \<open>The receive counter of \<open>eth0\<close> reads \<open>n/a\<close> at time 0 and 2000 one second later:
  0 is stored, and the rate is \<open>2000 * 8 / 1\<close>.\<close>

theorem unparsable_counter_is_zero_witness:
  "scanUint (Fields lineBad ! 1) = None
   \<and> (\<exists>st' st''.
         processLine hostUp 0 lineBad (Map.empty, initialState) = Inr ([''eth0'' \<mapsto> True], st')
       \<and> stats st' ''eth0'' =
           Some \<lparr>rxBytes = 0, txBytes = 500, rxPackets = 10, txPackets = 5, rxErrors = 0,
                 txErrors = 0, rxDrops = 0, txDrops = 0, time = 0, lastSeen = 0\<rparr>
       \<and> processLine hostUp 1000000000 lineB (Map.empty, st') = Inr ([''eth0'' \<mapsto> True], st'')
       \<and> networkSpeedBits st'' (''eth0'', ''receive'') = Some 16000)"
proof -
  have later: "(0::int) < 1000000000" by simp
  have none: "scanUint (Fields lineBad ! 1) = None"
    by (simp add: Fields_lineBad scanUint_examples)
  show ?thesis
    using unparsable_counter_is_zero [OF length_lineBad name_lineBad not_skipped_hostUp
        ValidString_examples(1) valid_hostUp length_lineB name_lineB not_skipped_hostUp
        valid_hostUp later, of Map.empty initialState Map.empty] none
    by (auto simp: Fields_lineBad Fields_lineB scan_simps Seconds_one float64_simps)
qed




end
